theory Spec2Isabelle
  imports Main
begin

section \<open>Data model\<close>

text \<open>
  The text of an id column (\<open>String(36)\<close>) or of an \<open>id_or_name\<close> argument: either
  \<open>str(u)\<close> for a UUID \<open>u\<close>, or a text that \<open>rgm._to_uuid\<close> rejects with ValueError
  (a qualified name, or any other text). UUID values are numbered abstractly.
\<close>

datatype ident = UUID nat | Text string

datatype EntityType = Project | Source | Anchor | AnchorFeature | DerivedFeature

datatype RelationshipType = Contains | BelongsTo | Consumes | Produces

datatype error =
    KeyError | ValueError | IndexError | AttributeError | TypeError
  | AssertionError | ConflictError | IntegrityError | BadRequest

record EntityRef =
  ref_id :: ident
  ref_type :: EntityType
  ref_qualified_name :: string

text \<open>
  Modelled from the spec: the type-specific attribute payloads of
  \<open>feathr_registry.registry.models.base\<close>, which is not among the source files. Each
  payload carries the fields that \<open>db_registry.py\<close> reads or compares, a field value
  being its serialised text; the JSON round trip through the \<open>attributes\<close> column is
  the identity.
\<close>

datatype Attributes =
    ProjectAttributes string
  | SourceAttributes string string string string string string
  | AnchorAttributes string EntityRef
  | AnchorFeatureAttributes string string string string
  | DerivedFeatureAttributes string string string string "EntityRef list"

record ProjectDef =
  pd_name :: string

record SourceDef =
  sd_name :: string
  sd_type :: string
  sd_options :: string
  sd_preprocessing :: string
  sd_event_timestamp_column :: string
  sd_timestamp_format :: string

record AnchorDef =
  ad_name :: string
  ad_source_id :: ident

record AnchorFeatureDef =
  afd_name :: string
  afd_feature_type :: string
  afd_transformation :: string
  afd_key :: string

record DerivedFeatureDef =
  dfd_name :: string
  dfd_feature_type :: string
  dfd_transformation :: string
  dfd_key :: string
  dfd_input_anchor_features :: "ident list"
  dfd_input_derived_features :: "ident list"

text \<open>The two tables of \<open>models/orm.py\<close>; a table is the list of its rows in insertion order.\<close>

record entity_row =
  entity_id :: ident
  qualified_name :: string
  entity_type :: EntityType
  attributes :: Attributes

record edge_row =
  edge_id :: ident
  from_id :: ident
  to_id :: ident
  conn_type :: RelationshipType

record database =
  entities :: "entity_row list"
  edges :: "edge_row list"

section \<open>Database connections (\<open>feathr_handlers/db/databases.py\<close>)\<close>

text \<open>
  \<open>SQLAlchemyConnection\<close> stands for the SQLAlchemy providers on SQLite, the provider
  that \<open>RegistrySettings\<close> and \<open>get_db_provider\<close> default to; its field says which
  texts SQLite reads as a true value when a text is an operand of \<open>OR\<close>.
  \<open>MssqlConnection\<close> carries its \<open>autocommit\<close> attribute; \<open>get_db_provider\<close> builds it
  with the default \<open>autocommit=True\<close>.
\<close>

datatype db_conn =
    SQLAlchemyConnection "ident \<Rightarrow> bool"
  | MssqlConnection bool

fun is_sqlalchemy_supported :: "db_conn \<Rightarrow> bool" where
  "is_sqlalchemy_supported (SQLAlchemyConnection t) = True"
| "is_sqlalchemy_supported (MssqlConnection ac) = False"

fun text_is_true :: "db_conn \<Rightarrow> ident \<Rightarrow> bool" where
  "text_is_true (SQLAlchemyConnection t) x = t x"
| "text_is_true (MssqlConnection ac) x = False"

text \<open>
  What \<open>transaction()\<close> yields: an ORM session, or a pymssql cursor on a connection
  with the given autocommit flag.
\<close>

datatype handle = Session | Cursor bool

text \<open>
  \<open>MssqlConnection.transaction\<close> sets \<open>conn_params["autocommit"] = False\<close> and then
  connects with \<open>self.make_connection()\<close>, which parses the connection string again and
  takes \<open>autocommit\<close> from \<open>self.autocommit\<close>: \<open>conn_params\<close> is not used.
  \<open>SQLAlchemyConnection.transaction\<close> yields a new session.
\<close>

fun make_handle :: "db_conn \<Rightarrow> handle" where
  "make_handle (SQLAlchemyConnection t) = Session"
| "make_handle (MssqlConnection ac) = Cursor ac"

text \<open>
  \<open>rollback c begun db\<close>: the store after \<open>rollback()\<close> on the handle's connection,
  \<open>begun\<close> being the store when the transaction was opened and \<open>db\<close> the store now.
  A statement executed on an autocommit connection is committed at once, so there is
  nothing to undo. In SQLAlchemy mode the registry executes its inserts on
  \<open>self.connection\<close> and its deletes on \<open>self.sql_session\<close> (followed by
  \<open>commit()\<close>), never on the session the transaction yields, so rolling that session
  back undoes nothing either.
\<close>

fun rollback :: "handle \<Rightarrow> database \<Rightarrow> database \<Rightarrow> database" where
  "rollback Session begun db = db"
| "rollback (Cursor ac) begun db = (if ac then db else begun)"

definition transaction ::
  "db_conn \<Rightarrow> (handle \<Rightarrow> database \<Rightarrow> (error + 'a) \<times> database) \<Rightarrow> database
     \<Rightarrow> (error + 'a) \<times> database" where
  "transaction self body db =
     (let c = make_handle self in
      case body c db of
        (Inl e, db') \<Rightarrow> (Inl e, rollback c db db')
      | (Inr v, db') \<Rightarrow> (Inr v, db'))"

text \<open>
  \<open>INSERT\<close> into a table: \<open>entity_id\<close> and \<open>edge_id\<close> are primary keys
  (\<open>primary_key=True\<close>), so a row whose key is already stored is refused.
\<close>

definition insert_entity :: "entity_row \<Rightarrow> database \<Rightarrow> (error + unit) \<times> database" where
  "insert_entity row db =
     (if entity_id row \<in> set (map entity_id (entities db)) then (Inl IntegrityError, db)
      else (Inr (), db\<lparr>entities := entities db @ [row]\<rparr>))"

definition insert_edge :: "edge_row \<Rightarrow> database \<Rightarrow> (error + unit) \<times> database" where
  "insert_edge row db =
     (if edge_id row \<in> set (map edge_id (edges db)) then (Inl IntegrityError, db)
      else (Inr (), db\<lparr>edges := edges db @ [row]\<rparr>))"

section \<open>The registry (\<open>feathr_registry/registry/db_registry.py\<close>)\<close>

text \<open>
  A method of \<open>DbRegistry\<close> keeps its name; a leading underscore is written \<open>u_\<close>
  (\<open>_bfs\<close> is \<open>u_bfs\<close>). A function that reads the store takes it as an argument; one
  that writes returns the new store beside its result. An exception is \<open>Inl\<close> of the
  result; a call that does not return is \<open>None\<close>.
\<close>

subsection \<open>Point lookups\<close>

text \<open>\<open>rgm._to_uuid\<close>: raises ValueError on a text that is not a UUID.\<close>

fun to_uuid :: "ident \<Rightarrow> error + ident" where
  "to_uuid (UUID u) = Inr (UUID u)"
| "to_uuid (Text s) = Inl ValueError"

text \<open>
  \<open>get_entity_id\<close>: an argument that \<open>_to_uuid\<close> accepts is returned as it is; any
  other text is looked up as a qualified name, and the first row's id is returned.
\<close>

fun get_entity_id :: "database \<Rightarrow> ident \<Rightarrow> error + ident" where
  "get_entity_id db (UUID u) = Inr (UUID u)"
| "get_entity_id db (Text s) =
     (case filter (\<lambda>r. qualified_name r = s) (entities db) of
        [] \<Rightarrow> Inl KeyError
      | r # rs \<Rightarrow> Inr (entity_id r))"

definition get_neighbors ::
  "database \<Rightarrow> ident \<Rightarrow> RelationshipType \<Rightarrow> error + edge_row list" where
  "get_neighbors db id_or_name relationship =
     (case get_entity_id db id_or_name of
        Inl err \<Rightarrow> Inl err
      | Inr i \<Rightarrow> Inr (filter (\<lambda>e. from_id e = i \<and> conn_type e = relationship) (edges db)))"

text \<open>
  Modelled from the spec: \<open>rgm.Entity\<close>, of the absent \<open>models/base.py\<close>. An entity is
  its row (the id kept as stored) with the attribute object of the row's type, and the
  decorations that \<open>_fill_entity\<close> sets at read time: \<open>children\<close> of a project,
  \<open>features\<close> and \<open>source\<close> of an anchor, \<open>input_features\<close> of a derived feature.
  A payload that is not of the row's type is a TypeError.
\<close>

datatype Entity =
  Entity (e_id: ident) (e_qualified_name: string) (e_entity_type: EntityType)
    (e_attributes: Attributes) (e_children: "Entity list") (e_features: "Entity list")
    (e_source: "Entity option") (e_input_features: "Entity list")

fun type_of_attributes :: "Attributes \<Rightarrow> EntityType" where
  "type_of_attributes (ProjectAttributes n) = Project"
| "type_of_attributes (SourceAttributes n t opt pre ets tf) = Source"
| "type_of_attributes (AnchorAttributes n src) = Anchor"
| "type_of_attributes (AnchorFeatureAttributes n t tr k) = AnchorFeature"
| "type_of_attributes (DerivedFeatureAttributes n t tr k ins) = DerivedFeature"

definition new_Entity :: "entity_row \<Rightarrow> error + Entity" where
  "new_Entity row =
     (if type_of_attributes (attributes row) = entity_type row
      then Inr (Entity (entity_id row) (qualified_name row) (entity_type row) (attributes row)
                  [] [] None [])
      else Inl TypeError)"

fun new_Entities :: "entity_row list \<Rightarrow> error + Entity list" where
  "new_Entities [] = Inr []"
| "new_Entities (row # rows) =
     (case new_Entity row of
        Inl err \<Rightarrow> Inl err
      | Inr e \<Rightarrow> (case new_Entities rows of Inl err \<Rightarrow> Inl err | Inr es \<Rightarrow> Inr (e # es)))"

definition u_get_entity :: "database \<Rightarrow> ident \<Rightarrow> error + Entity" where
  "u_get_entity db id_or_name =
     (case get_entity_id db id_or_name of
        Inl err \<Rightarrow> Inl err
      | Inr i \<Rightarrow>
          (case filter (\<lambda>r. entity_id r = i) (entities db) of
             [] \<Rightarrow> Inl KeyError
           | row # rows \<Rightarrow> new_Entity row))"

definition u_get_entities :: "database \<Rightarrow> ident list \<Rightarrow> error + Entity list" where
  "u_get_entities db ids =
     (if ids = [] then Inr []
      else new_Entities (filter (\<lambda>r. entity_id r \<in> set ids) (entities db)))"

text \<open>The three decorations of \<open>_fill_entity\<close> that do not call \<open>get_entity\<close>.\<close>

definition fill_children :: "database \<Rightarrow> Entity \<Rightarrow> error + Entity" where
  "fill_children db e =
     (case get_neighbors db (e_id e) Contains of
        Inl err \<Rightarrow> Inl err
      | Inr edges' \<Rightarrow>
          (case u_get_entities db (map to_id edges') of
             Inl err \<Rightarrow> Inl err
           | Inr children \<Rightarrow>
               Inr (Entity (e_id e) (e_qualified_name e) (e_entity_type e) (e_attributes e)
                      children (e_features e) (e_source e) (e_input_features e))))"

definition fill_features :: "database \<Rightarrow> Entity \<Rightarrow> error + Entity" where
  "fill_features db e =
     (case get_neighbors db (e_id e) Contains of
        Inl err \<Rightarrow> Inl err
      | Inr conn \<Rightarrow>
          (case u_get_entities db (map to_id conn) of
             Inl err \<Rightarrow> Inl err
           | Inr features \<Rightarrow>
               Inr (Entity (e_id e) (e_qualified_name e) (e_entity_type e) (e_attributes e)
                      (e_children e) features (e_source e) (e_input_features e))))"

definition fill_input_features :: "database \<Rightarrow> Entity \<Rightarrow> error + Entity" where
  "fill_input_features db e =
     (case get_neighbors db (e_id e) Consumes of
        Inl err \<Rightarrow> Inl err
      | Inr conn \<Rightarrow>
          (case u_get_entities db (map to_id conn) of
             Inl err \<Rightarrow> Inl err
           | Inr features \<Rightarrow>
               Inr (Entity (e_id e) (e_qualified_name e) (e_entity_type e) (e_attributes e)
                      (e_children e) (e_features e) (e_source e) features)))"

definition set_source :: "Entity \<Rightarrow> Entity \<Rightarrow> Entity" where
  "set_source e src =
     Entity (e_id e) (e_qualified_name e) (e_entity_type e) (e_attributes e)
       (e_children e) (e_features e) (Some src) (e_input_features e)"

text \<open>
  \<open>get_entity\<close> is \<open>_fill_entity(_get_entity(id_or_name))\<close>; filling an anchor calls
  \<open>get_entity\<close> on the \<open>to_id\<close> of the anchor's first Consumes edge, so the two are
  one recursion, which need not end on a store where anchors consume one another.
\<close>

partial_function (option) get_entity :: "database \<Rightarrow> ident \<Rightarrow> (error + Entity) option" where
  "get_entity db id_or_name =
     (case u_get_entity db id_or_name of
        Inl err \<Rightarrow> Some (Inl err)
      | Inr e \<Rightarrow>
          if e_entity_type e = Project then Some (fill_children db e)
          else if e_entity_type e = Anchor then
            (case fill_features db e of
               Inl err \<Rightarrow> Some (Inl err)
             | Inr e' \<Rightarrow>
                 (case get_neighbors db (e_id e') Consumes of
                    Inl err \<Rightarrow> Some (Inl err)
                  | Inr [] \<Rightarrow> Some (Inl IndexError)
                  | Inr (n # ns) \<Rightarrow>
                      Option.bind (get_entity db (to_id n))
                        (\<lambda>r. case r of
                                Inl err \<Rightarrow> Some (Inl err)
                              | Inr src \<Rightarrow> Some (Inr (set_source e' src)))))
          else if e_entity_type e = DerivedFeature then Some (fill_input_features db e)
          else Some (Inr e))"

declare get_entity.simps [code]

definition u_fill_entity :: "database \<Rightarrow> Entity \<Rightarrow> (error + Entity) option" where
  "u_fill_entity db e =
     (if e_entity_type e = Project then Some (fill_children db e)
      else if e_entity_type e = Anchor then
        (case fill_features db e of
           Inl err \<Rightarrow> Some (Inl err)
         | Inr e' \<Rightarrow>
             (case get_neighbors db (e_id e') Consumes of
                Inl err \<Rightarrow> Some (Inl err)
              | Inr [] \<Rightarrow> Some (Inl IndexError)
              | Inr (n # ns) \<Rightarrow>
                  (case get_entity db (to_id n) of
                     None \<Rightarrow> None
                   | Some (Inl err) \<Rightarrow> Some (Inl err)
                   | Some (Inr src) \<Rightarrow> Some (Inr (set_source e' src)))))
      else if e_entity_type e = DerivedFeature then Some (fill_input_features db e)
      else Some (Inr e))"

fun fill_entities :: "database \<Rightarrow> Entity list \<Rightarrow> (error + Entity list) option" where
  "fill_entities db [] = Some (Inr [])"
| "fill_entities db (e # es) =
     (case u_fill_entity db e of
        None \<Rightarrow> None
      | Some (Inl err) \<Rightarrow> Some (Inl err)
      | Some (Inr e') \<Rightarrow>
          (case fill_entities db es of
             None \<Rightarrow> None
           | Some (Inl err) \<Rightarrow> Some (Inl err)
           | Some (Inr es') \<Rightarrow> Some (Inr (e' # es'))))"

definition get_entities :: "database \<Rightarrow> ident list \<Rightarrow> (error + Entity list) option" where
  "get_entities db ids =
     (case u_get_entities db ids of
        Inl err \<Rightarrow> Some (Inl err)
      | Inr es \<Rightarrow> fill_entities db es)"

subsection \<open>Breadth-first traversal\<close>

definition u_bfs_step :: "database \<Rightarrow> ident list \<Rightarrow> RelationshipType \<Rightarrow> edge_row list" where
  "u_bfs_step db ids ct =
     filter (\<lambda>e. conn_type e = ct \<and> from_id e \<in> set ids) (edges db)"

text \<open>
  The \<open>while\<close> loop of \<open>_bfs\<close>: \<open>to_ids\<close> holds the \<open>to_id\<close> values of the last step's
  rows (at first the start id), \<open>connections\<close> the rows found so far.
\<close>

partial_function (option) bfs_loop ::
  "database \<Rightarrow> RelationshipType \<Rightarrow> ident list \<Rightarrow> edge_row list \<Rightarrow> edge_row list option" where
  "bfs_loop db ct to_ids connections =
     (if to_ids = [] then Some connections
      else bfs_loop db ct (map to_id (u_bfs_step db to_ids ct))
             (connections @ u_bfs_step db to_ids ct))"

declare bfs_loop.simps [code]

definition u_bfs ::
  "database \<Rightarrow> ident \<Rightarrow> RelationshipType \<Rightarrow> (error + Entity list \<times> edge_row list) option" where
  "u_bfs db i ct =
     (case bfs_loop db ct [i] [] of
        None \<Rightarrow> None
      | Some connections \<Rightarrow>
          (case get_entities db (i # concat (map (\<lambda>r. [from_id r, to_id r]) connections)) of
             None \<Rightarrow> None
           | Some (Inl err) \<Rightarrow> Some (Inl err)
           | Some (Inr es) \<Rightarrow> Some (Inr (es, connections))))"

definition get_lineage ::
  "database \<Rightarrow> ident \<Rightarrow> (error + Entity list \<times> edge_row list) option" where
  "get_lineage db id_or_name =
     (case get_entity_id db id_or_name of
        Inl err \<Rightarrow> Some (Inl err)
      | Inr i \<Rightarrow>
          (case u_bfs db i Consumes of
             None \<Rightarrow> None
           | Some (Inl err) \<Rightarrow> Some (Inl err)
           | Some (Inr (upstream_entities, upstream_edges)) \<Rightarrow>
               (case u_bfs db i Produces of
                  None \<Rightarrow> None
                | Some (Inl err) \<Rightarrow> Some (Inl err)
                | Some (Inr (downstream_entities, downstream_edges)) \<Rightarrow>
                    Some (Inr (upstream_entities @ downstream_entities,
                               upstream_edges @ downstream_edges)))))"

fun dependent_relation :: "EntityType \<Rightarrow> RelationshipType" where
  "dependent_relation Project = Contains"
| "dependent_relation Source = Produces"
| "dependent_relation Anchor = Contains"
| "dependent_relation AnchorFeature = Produces"
| "dependent_relation DerivedFeature = Produces"

definition get_dependent_entities :: "database \<Rightarrow> ident \<Rightarrow> (error + Entity list) option" where
  "get_dependent_entities db id_or_name =
     (case get_entity_id db id_or_name of
        Inl err \<Rightarrow> Some (Inl err)
      | Inr i \<Rightarrow>
          (case get_entity db i of
             None \<Rightarrow> None
           | Some (Inl err) \<Rightarrow> Some (Inl err)
           | Some (Inr entity) \<Rightarrow>
               (case u_bfs db i (dependent_relation (e_entity_type entity)) of
                  None \<Rightarrow> None
                | Some (Inl err) \<Rightarrow> Some (Inl err)
                | Some (Inr (downstream_entities, edges')) \<Rightarrow>
                    Some (Inr (filter (\<lambda>e. e_id e \<noteq> i) downstream_entities)))))"

subsection \<open>Edges\<close>

text \<open>
  \<open>_create_edge(cursor, from_id, to_id, type)\<close>; \<open>u\<close> is the value \<open>uuid4()\<close> returns.
  SQLAlchemy mode inserts; raw-SQL mode inserts \<open>IF NOT EXISTS\<close> a row with the triple.
\<close>

definition edge_exists :: "database \<Rightarrow> ident \<Rightarrow> ident \<Rightarrow> RelationshipType \<Rightarrow> bool" where
  "edge_exists db f t ty =
     (filter (\<lambda>e. from_id e = f \<and> to_id e = t \<and> conn_type e = ty) (edges db) \<noteq> [])"

definition u_create_edge ::
  "db_conn \<Rightarrow> handle \<Rightarrow> ident \<Rightarrow> ident \<Rightarrow> ident \<Rightarrow> RelationshipType \<Rightarrow> database
     \<Rightarrow> (error + unit) \<times> database" where
  "u_create_edge self cursor u f t ty db =
     (let row = \<lparr>edge_id = u, from_id = f, to_id = t, conn_type = ty\<rparr> in
      if is_sqlalchemy_supported self then insert_edge row db
      else if \<not> edge_exists db f t ty then insert_edge row db
      else (Inr (), db))"

subsection \<open>Deletion\<close>

text \<open>
  The values of the SQL expressions in the delete criteria, under SQLite's rules: a
  comparison and \<open>OR\<close> yield the integer 1 or 0, and an integer is never equal to a
  text.
\<close>

datatype sql_value = SqlInteger int | SqlText ident

fun sql_eq :: "sql_value \<Rightarrow> sql_value \<Rightarrow> sql_value" where
  "sql_eq (SqlInteger a) (SqlInteger b) = SqlInteger (if a = b then 1 else 0)"
| "sql_eq (SqlText a) (SqlText b) = SqlInteger (if a = b then 1 else 0)"
| "sql_eq (SqlInteger a) (SqlText b) = SqlInteger 0"
| "sql_eq (SqlText a) (SqlInteger b) = SqlInteger 0"

fun sql_true :: "db_conn \<Rightarrow> sql_value \<Rightarrow> bool" where
  "sql_true self (SqlInteger a) = (a \<noteq> 0)"
| "sql_true self (SqlText a) = text_is_true self a"

definition sql_or :: "db_conn \<Rightarrow> sql_value \<Rightarrow> sql_value \<Rightarrow> sql_value" where
  "sql_or self a b = SqlInteger (if sql_true self a \<or> sql_true self b then 1 else 0)"

text \<open>
  \<open>_delete_all_entity_edges\<close>. The SQLAlchemy filter is written
  \<open>(orm.Edges.from_id == str(entity_id)) | orm.Edges.to_id == str(entity_id)\<close>; in
  Python \<open>|\<close> binds tighter than \<open>==\<close>, so the criterion is
  \<open>((from_id = x) OR to_id) = x\<close>. The raw SQL is \<open>from_id = x OR to_id = x\<close>.
\<close>

definition orm_edges_criterion :: "db_conn \<Rightarrow> ident \<Rightarrow> edge_row \<Rightarrow> bool" where
  "orm_edges_criterion self x e =
     sql_true self
       (sql_eq (sql_or self (sql_eq (SqlText (from_id e)) (SqlText x)) (SqlText (to_id e)))
          (SqlText x))"

definition u_delete_all_entity_edges ::
  "db_conn \<Rightarrow> handle \<Rightarrow> ident \<Rightarrow> database \<Rightarrow> (error + unit) \<times> database" where
  "u_delete_all_entity_edges self cursor x db =
     (if is_sqlalchemy_supported self
      then (Inr (), db\<lparr>edges := filter (\<lambda>e. \<not> orm_edges_criterion self x e) (edges db)\<rparr>)
      else (Inr (), db\<lparr>edges := filter (\<lambda>e. \<not> (from_id e = x \<or> to_id e = x)) (edges db)\<rparr>))"

definition u_delete_entity ::
  "db_conn \<Rightarrow> handle \<Rightarrow> ident \<Rightarrow> database \<Rightarrow> (error + unit) \<times> database" where
  "u_delete_entity self cursor x db =
     (Inr (), db\<lparr>entities := filter (\<lambda>r. entity_id r \<noteq> x) (entities db)\<rparr>)"

text \<open>Sequencing inside a \<open>with\<close> block: an exception ends the block with the store as it is.\<close>

definition then_do ::
  "(error + 'a) \<times> database \<Rightarrow> ('a \<Rightarrow> database \<Rightarrow> (error + 'b) \<times> database)
     \<Rightarrow> (error + 'b) \<times> database" where
  "then_do m f = (case m of (Inl err, db) \<Rightarrow> (Inl err, db) | (Inr v, db) \<Rightarrow> f v db)"

definition delete_entity :: "db_conn \<Rightarrow> database \<Rightarrow> ident \<Rightarrow> (error + unit) \<times> database" where
  "delete_entity self db id_or_name =
     (case get_entity_id db id_or_name of
        Inl err \<Rightarrow> (Inl err, db)
      | Inr x \<Rightarrow>
          transaction self
            (\<lambda>c db'. then_do (u_delete_all_entity_edges self c x db')
                       (\<lambda>u db''. u_delete_entity self c x db''))
            db)"

text \<open>
  One \<open>for\<close> loop of \<open>delete_empty_entities\<close>: every entity of the list that has type
  \<open>ty\<close> and whose traversal over \<open>ct\<close> yields one entity is deleted.
\<close>

fun clean_up ::
  "db_conn \<Rightarrow> EntityType \<Rightarrow> RelationshipType \<Rightarrow> Entity list \<Rightarrow> database
     \<Rightarrow> ((error + unit) \<times> database) option" where
  "clean_up self ty ct [] db = Some (Inr (), db)"
| "clean_up self ty ct (e # es) db =
     (if e_entity_type e = ty then
        (case u_bfs db (e_id e) ct of
           None \<Rightarrow> None
         | Some (Inl err) \<Rightarrow> Some (Inl err, db)
         | Some (Inr (downstream_entities, edges')) \<Rightarrow>
             if length downstream_entities = 1 then
               (case delete_entity self db (e_id e) of
                  (Inl err, db') \<Rightarrow> Some (Inl err, db')
                | (Inr u, db') \<Rightarrow> clean_up self ty ct es db')
             else clean_up self ty ct es db)
      else clean_up self ty ct es db)"

definition delete_empty_entities ::
  "db_conn \<Rightarrow> database \<Rightarrow> Entity list \<Rightarrow> ((error + unit) \<times> database) option" where
  "delete_empty_entities self db es =
     (if length es = 0 then Some (Inr (), db)
      else
        (case clean_up self Anchor Contains es db of
           None \<Rightarrow> None
         | Some (Inl err, db') \<Rightarrow> Some (Inl err, db')
         | Some (Inr u, db') \<Rightarrow> clean_up self Source Produces es db'))"

subsection \<open>Creation\<close>

text \<open>
  Every creation operation takes \<open>uuid4\<close>, the values that \<open>uuid4()\<close> returns during
  the call: \<open>UUID (uuid4 k)\<close> is the result of call number \<open>k\<close>, counted from 0. The
  entity's id is call 0; each \<open>_create_edge\<close> makes one call, in program order.

  Each operation is written in three parts: the \<open>if r:\<close> block that handles a row
  found under the qualified name \<open>qn\<close> (\<open>_found\<close>), the statements that insert the new
  entity and its edges (\<open>_new\<close>), and the \<open>with self.db_conn.transaction() as c:\<close>
  block that chooses between them (\<open>_block\<close>).
\<close>

definition rows_named :: "database \<Rightarrow> string \<Rightarrow> entity_row list" where
  "rows_named db qn = filter (\<lambda>r. qualified_name r = qn) (entities db)"

definition project_found ::
  "entity_row \<Rightarrow> entity_row list \<Rightarrow> database \<Rightarrow> (error + ident) \<times> database" where
  "project_found row rest db =
     (if rest \<noteq> [] then (Inl AssertionError, db)
      else if entity_type row \<noteq> Project then (Inl ConflictError, db)
      else (to_uuid (entity_id row), db))"

definition project_new ::
  "ProjectDef \<Rightarrow> (nat \<Rightarrow> nat) \<Rightarrow> database \<Rightarrow> (error + ident) \<times> database" where
  "project_new defn uuid4 db =
     then_do
       (insert_entity
          \<lparr>entity_id = UUID (uuid4 0), qualified_name = pd_name defn,
           entity_type = Project, attributes = ProjectAttributes (pd_name defn)\<rparr> db)
       (\<lambda>u db. (Inr (UUID (uuid4 0)), db))"

definition project_block ::
  "ProjectDef \<Rightarrow> (nat \<Rightarrow> nat) \<Rightarrow> handle \<Rightarrow> database \<Rightarrow> (error + ident) \<times> database" where
  "project_block defn uuid4 c db =
     (case rows_named db (pd_name defn) of
        row # rest \<Rightarrow> project_found row rest db
      | [] \<Rightarrow> project_new defn uuid4 db)"

definition create_project ::
  "db_conn \<Rightarrow> database \<Rightarrow> ProjectDef \<Rightarrow> (nat \<Rightarrow> nat) \<Rightarrow> (error + ident) \<times> database" where
  "create_project self db defn uuid4 = transaction self (project_block defn uuid4) db"

definition SourceDef_to_attr :: "SourceDef \<Rightarrow> Attributes" where
  "SourceDef_to_attr defn =
     SourceAttributes (sd_name defn) (sd_type defn) (sd_options defn) (sd_preprocessing defn)
       (sd_event_timestamp_column defn) (sd_timestamp_format defn)"

definition datasource_found ::
  "SourceDef \<Rightarrow> entity_row \<Rightarrow> entity_row list \<Rightarrow> database \<Rightarrow> (error + ident) \<times> database" where
  "datasource_found defn row rest db =
     (if rest \<noteq> [] then (Inl AssertionError, db)
      else if entity_type row \<noteq> Source then (Inl ConflictError, db)
      else
        (case attributes row of
           SourceAttributes n t opt pre ets tf \<Rightarrow>
             if n = sd_name defn \<and> t = sd_type defn \<and> opt = sd_options defn
                \<and> pre = sd_preprocessing defn
                \<and> ets = sd_event_timestamp_column defn
                \<and> tf = sd_timestamp_format defn
             then (to_uuid (entity_id row), db)
             else (Inl ConflictError, db)
         | other \<Rightarrow> (Inl TypeError, db)))"

definition datasource_new ::
  "db_conn \<Rightarrow> ident \<Rightarrow> SourceDef \<Rightarrow> (nat \<Rightarrow> nat) \<Rightarrow> string \<Rightarrow> handle \<Rightarrow> database
     \<Rightarrow> (error + ident) \<times> database" where
  "datasource_new self project_id defn uuid4 qn c db =
     then_do
       (insert_entity
          \<lparr>entity_id = UUID (uuid4 0), qualified_name = qn,
           entity_type = Source, attributes = SourceDef_to_attr defn\<rparr> db)
     (\<lambda>u db. then_do
        (u_create_edge self c (UUID (uuid4 1)) project_id (UUID (uuid4 0)) Contains db)
     (\<lambda>u db. then_do
        (u_create_edge self c (UUID (uuid4 2)) (UUID (uuid4 0)) project_id BelongsTo db)
     (\<lambda>u db. (Inr (UUID (uuid4 0)), db))))"

definition datasource_block ::
  "db_conn \<Rightarrow> ident \<Rightarrow> SourceDef \<Rightarrow> (nat \<Rightarrow> nat) \<Rightarrow> string \<Rightarrow> handle \<Rightarrow> database
     \<Rightarrow> (error + ident) \<times> database" where
  "datasource_block self project_id defn uuid4 qn c db =
     (case rows_named db qn of
        row # rest \<Rightarrow> datasource_found defn row rest db
      | [] \<Rightarrow> datasource_new self project_id defn uuid4 qn c db)"

definition create_project_datasource ::
  "db_conn \<Rightarrow> database \<Rightarrow> ident \<Rightarrow> SourceDef \<Rightarrow> (nat \<Rightarrow> nat)
     \<Rightarrow> ((error + ident) \<times> database) option" where
  "create_project_datasource self db project_id defn uuid4 =
     (case get_entity db project_id of
        None \<Rightarrow> None
      | Some (Inl err) \<Rightarrow> Some (Inl err, db)
      | Some (Inr project) \<Rightarrow>
          Some (transaction self
                  (datasource_block self project_id defn uuid4
                     (e_qualified_name project @ ''__'' @ sd_name defn))
                  db))"

text \<open>
  In \<open>create_project_anchor\<close> the new id is the local \<open>entity_id\<close>. The SQLAlchemy
  insert stores \<open>str(entity_id)\<close>; the raw-SQL insert stores \<open>str(id)\<close>, and \<open>id\<close> is
  not a local of this method, so it is Python's built-in function.
\<close>

definition str_builtin_id :: ident where
  "str_builtin_id = Text ''<built-in function id>''"

definition anchor_found ::
  "AnchorDef \<Rightarrow> entity_row \<Rightarrow> entity_row list \<Rightarrow> database \<Rightarrow> (error + ident) \<times> database" where
  "anchor_found defn row rest db =
     (if rest \<noteq> [] then (Inl AssertionError, db)
      else if entity_type row \<noteq> Anchor then (Inl ConflictError, db)
      else
        (case attributes row of
           AnchorAttributes n src \<Rightarrow>
             if n = ad_name defn then (to_uuid (entity_id row), db)
             else (Inl ConflictError, db)
         | other \<Rightarrow> (Inl TypeError, db)))"

definition anchor_new ::
  "db_conn \<Rightarrow> ident \<Rightarrow> AnchorDef \<Rightarrow> (nat \<Rightarrow> nat) \<Rightarrow> string \<Rightarrow> handle \<Rightarrow> database
     \<Rightarrow> (error + ident) \<times> database" where
  "anchor_new self project_id defn uuid4 qn c db =
     (case filter (\<lambda>r. entity_id r = ad_source_id defn \<and> entity_type r = Source)
             (entities db) of
        [] \<Rightarrow> (Inl ValueError, db)
      | s # ss \<Rightarrow>
          then_do
            (insert_entity
               \<lparr>entity_id =
                  (if is_sqlalchemy_supported self then UUID (uuid4 0) else str_builtin_id),
                qualified_name = qn, entity_type = Anchor,
                attributes =
                  AnchorAttributes (ad_name defn)
                    \<lparr>ref_id = entity_id s, ref_type = Source,
                     ref_qualified_name = qualified_name s\<rparr>\<rparr> db)
          (\<lambda>u db. then_do
             (u_create_edge self c (UUID (uuid4 1)) project_id (UUID (uuid4 0)) Contains db)
          (\<lambda>u db. then_do
             (u_create_edge self c (UUID (uuid4 2)) (UUID (uuid4 0)) project_id BelongsTo db)
          (\<lambda>u db. then_do
             (u_create_edge self c (UUID (uuid4 3)) (UUID (uuid4 0)) (ad_source_id defn)
                Consumes db)
          (\<lambda>u db. then_do
             (u_create_edge self c (UUID (uuid4 4)) (ad_source_id defn) (UUID (uuid4 0))
                Produces db)
          (\<lambda>u db. (Inr (UUID (uuid4 0)), db)))))))"

definition anchor_block ::
  "db_conn \<Rightarrow> ident \<Rightarrow> AnchorDef \<Rightarrow> (nat \<Rightarrow> nat) \<Rightarrow> string \<Rightarrow> handle \<Rightarrow> database
     \<Rightarrow> (error + ident) \<times> database" where
  "anchor_block self project_id defn uuid4 qn c db =
     (case rows_named db qn of
        row # rest \<Rightarrow> anchor_found defn row rest db
      | [] \<Rightarrow> anchor_new self project_id defn uuid4 qn c db)"

definition create_project_anchor ::
  "db_conn \<Rightarrow> database \<Rightarrow> ident \<Rightarrow> AnchorDef \<Rightarrow> (nat \<Rightarrow> nat)
     \<Rightarrow> ((error + ident) \<times> database) option" where
  "create_project_anchor self db project_id defn uuid4 =
     (case get_entity db project_id of
        None \<Rightarrow> None
      | Some (Inl err) \<Rightarrow> Some (Inl err, db)
      | Some (Inr project) \<Rightarrow>
          Some (transaction self
                  (anchor_block self project_id defn uuid4
                     (e_qualified_name project @ ''__'' @ ad_name defn))
                  db))"

definition anchor_feature_found ::
  "AnchorFeatureDef \<Rightarrow> entity_row \<Rightarrow> entity_row list \<Rightarrow> database
     \<Rightarrow> (error + ident) \<times> database" where
  "anchor_feature_found defn row rest db =
     (if rest \<noteq> [] then (Inl AssertionError, db)
      else if entity_type row \<noteq> AnchorFeature then (Inl ConflictError, db)
      else
        (case attributes row of
           AnchorFeatureAttributes n t tr k \<Rightarrow>
             if n = afd_name defn \<and> t = afd_feature_type defn
                \<and> tr = afd_transformation defn \<and> k = afd_key defn
             then (to_uuid (entity_id row), db)
             else (Inl ConflictError, db)
         | other \<Rightarrow> (Inl TypeError, db)))"

text \<open>
  Modelled from the spec: \<open>anchor.attributes.source.id\<close> reads the source that
  \<open>_fill_entity\<close> has set on an anchor; the attribute object of any other entity type
  has no \<open>source\<close>, which is an AttributeError.
\<close>

definition anchor_feature_new ::
  "db_conn \<Rightarrow> ident \<Rightarrow> ident \<Rightarrow> Entity \<Rightarrow> AnchorFeatureDef \<Rightarrow> (nat \<Rightarrow> nat) \<Rightarrow> string
     \<Rightarrow> handle \<Rightarrow> database \<Rightarrow> (error + ident) \<times> database" where
  "anchor_feature_new self project_id anchor_id anchor defn uuid4 qn c db =
     (case e_source anchor of
        None \<Rightarrow> (Inl AttributeError, db)
      | Some source \<Rightarrow>
          then_do
            (insert_entity
               \<lparr>entity_id = UUID (uuid4 0), qualified_name = qn,
                entity_type = AnchorFeature,
                attributes =
                  AnchorFeatureAttributes (afd_name defn) (afd_feature_type defn)
                    (afd_transformation defn) (afd_key defn)\<rparr> db)
          (\<lambda>u db. then_do
             (u_create_edge self c (UUID (uuid4 1)) project_id (UUID (uuid4 0)) Contains db)
          (\<lambda>u db. then_do
             (u_create_edge self c (UUID (uuid4 2)) (UUID (uuid4 0)) project_id BelongsTo db)
          (\<lambda>u db. then_do
             (u_create_edge self c (UUID (uuid4 3)) anchor_id (UUID (uuid4 0)) Contains db)
          (\<lambda>u db. then_do
             (u_create_edge self c (UUID (uuid4 4)) (UUID (uuid4 0)) anchor_id BelongsTo db)
          (\<lambda>u db. then_do
             (u_create_edge self c (UUID (uuid4 5)) (UUID (uuid4 0)) (e_id source) Consumes db)
          (\<lambda>u db. then_do
             (u_create_edge self c (UUID (uuid4 6)) (e_id source) (UUID (uuid4 0)) Produces db)
          (\<lambda>u db. (Inr (UUID (uuid4 0)), db)))))))))"

definition anchor_feature_block ::
  "db_conn \<Rightarrow> ident \<Rightarrow> ident \<Rightarrow> Entity \<Rightarrow> AnchorFeatureDef \<Rightarrow> (nat \<Rightarrow> nat) \<Rightarrow> string
     \<Rightarrow> handle \<Rightarrow> database \<Rightarrow> (error + ident) \<times> database" where
  "anchor_feature_block self project_id anchor_id anchor defn uuid4 qn c db =
     (case rows_named db qn of
        row # rest \<Rightarrow> anchor_feature_found defn row rest db
      | [] \<Rightarrow> anchor_feature_new self project_id anchor_id anchor defn uuid4 qn c db)"

definition create_project_anchor_feature ::
  "db_conn \<Rightarrow> database \<Rightarrow> ident \<Rightarrow> ident \<Rightarrow> AnchorFeatureDef \<Rightarrow> (nat \<Rightarrow> nat)
     \<Rightarrow> ((error + ident) \<times> database) option" where
  "create_project_anchor_feature self db project_id anchor_id defn uuid4 =
     (case get_entity db anchor_id of
        None \<Rightarrow> None
      | Some (Inl err) \<Rightarrow> Some (Inl err, db)
      | Some (Inr anchor) \<Rightarrow>
          Some (transaction self
                  (anchor_feature_block self project_id anchor_id anchor defn uuid4
                     (e_qualified_name anchor @ ''__'' @ afd_name defn))
                  db))"

definition derived_feature_found ::
  "DerivedFeatureDef \<Rightarrow> entity_row \<Rightarrow> entity_row list \<Rightarrow> database
     \<Rightarrow> (error + ident) \<times> database" where
  "derived_feature_found defn row rest db =
     (if rest \<noteq> [] then (Inl AssertionError, db)
      else if entity_type row \<noteq> DerivedFeature then (Inl ConflictError, db)
      else
        (case attributes row of
           DerivedFeatureAttributes n t tr k ins \<Rightarrow>
             if n = dfd_name defn \<and> t = dfd_feature_type defn
                \<and> tr = dfd_transformation defn \<and> k = dfd_key defn
             then (to_uuid (entity_id row), db)
             else (Inl ConflictError, db)
         | other \<Rightarrow> (Inl TypeError, db)))"

text \<open>
  The loop \<open>for r in r1 + r2\<close> of \<open>create_project_derived_feature\<close>; \<open>k\<close> is the number
  of the next \<open>uuid4()\<close> call.
\<close>

fun create_input_edges ::
  "db_conn \<Rightarrow> handle \<Rightarrow> (nat \<Rightarrow> nat) \<Rightarrow> nat \<Rightarrow> ident \<Rightarrow> entity_row list \<Rightarrow> database
     \<Rightarrow> (error + unit) \<times> database" where
  "create_input_edges self c uuid4 k i [] db = (Inr (), db)"
| "create_input_edges self c uuid4 k i (r # rs) db =
     then_do (u_create_edge self c (UUID (uuid4 k)) i (entity_id r) Consumes db)
     (\<lambda>u db. then_do (u_create_edge self c (UUID (uuid4 (k + 1))) (entity_id r) i Produces db)
     (\<lambda>u db. create_input_edges self c uuid4 (k + 2) i rs db))"

text \<open>The rows \<open>r1\<close> and \<open>r2\<close>: queried only when the list of input ids is not empty.\<close>

definition input_rows :: "database \<Rightarrow> ident list \<Rightarrow> EntityType \<Rightarrow> entity_row list" where
  "input_rows db ids ty =
     (if ids = [] then []
      else filter (\<lambda>r. entity_id r \<in> set ids \<and> entity_type r = ty) (entities db))"

definition to_ref :: "entity_row \<Rightarrow> EntityRef" where
  "to_ref r = \<lparr>ref_id = entity_id r, ref_type = entity_type r,
               ref_qualified_name = qualified_name r\<rparr>"

definition derived_feature_insert ::
  "db_conn \<Rightarrow> ident \<Rightarrow> DerivedFeatureDef \<Rightarrow> (nat \<Rightarrow> nat) \<Rightarrow> string \<Rightarrow> handle
     \<Rightarrow> entity_row list \<Rightarrow> database \<Rightarrow> (error + ident) \<times> database" where
  "derived_feature_insert self project_id defn uuid4 qn c inputs db =
     then_do
       (insert_entity
          \<lparr>entity_id = UUID (uuid4 0), qualified_name = qn,
           entity_type = DerivedFeature,
           attributes =
             DerivedFeatureAttributes (dfd_name defn) (dfd_feature_type defn)
               (dfd_transformation defn) (dfd_key defn) (map to_ref inputs)\<rparr> db)
     (\<lambda>u db. then_do
        (u_create_edge self c (UUID (uuid4 1)) project_id (UUID (uuid4 0)) Contains db)
     (\<lambda>u db. then_do
        (u_create_edge self c (UUID (uuid4 2)) (UUID (uuid4 0)) project_id BelongsTo db)
     (\<lambda>u db. then_do
        (create_input_edges self c uuid4 3 (UUID (uuid4 0)) inputs db)
     (\<lambda>u db. (Inr (UUID (uuid4 0)), db)))))"

definition derived_feature_new ::
  "db_conn \<Rightarrow> ident \<Rightarrow> DerivedFeatureDef \<Rightarrow> (nat \<Rightarrow> nat) \<Rightarrow> string \<Rightarrow> handle \<Rightarrow> database
     \<Rightarrow> (error + ident) \<times> database" where
  "derived_feature_new self project_id defn uuid4 qn c db =
     (if length (input_rows db (dfd_input_anchor_features defn) AnchorFeature)
           \<noteq> length (dfd_input_anchor_features defn)
      then (Inl ValueError, db)
      else if length (input_rows db (dfd_input_derived_features defn) DerivedFeature)
           \<noteq> length (dfd_input_derived_features defn)
      then (Inl ValueError, db)
      else
        derived_feature_insert self project_id defn uuid4 qn c
          (input_rows db (dfd_input_anchor_features defn) AnchorFeature
           @ input_rows db (dfd_input_derived_features defn) DerivedFeature)
          db)"

definition derived_feature_block ::
  "db_conn \<Rightarrow> ident \<Rightarrow> DerivedFeatureDef \<Rightarrow> (nat \<Rightarrow> nat) \<Rightarrow> string \<Rightarrow> handle \<Rightarrow> database
     \<Rightarrow> (error + ident) \<times> database" where
  "derived_feature_block self project_id defn uuid4 qn c db =
     (case rows_named db qn of
        row # rest \<Rightarrow> derived_feature_found defn row rest db
      | [] \<Rightarrow> derived_feature_new self project_id defn uuid4 qn c db)"

definition create_project_derived_feature ::
  "db_conn \<Rightarrow> database \<Rightarrow> ident \<Rightarrow> DerivedFeatureDef \<Rightarrow> (nat \<Rightarrow> nat)
     \<Rightarrow> ((error + ident) \<times> database) option" where
  "create_project_derived_feature self db project_id defn uuid4 =
     (case get_entity db project_id of
        None \<Rightarrow> None
      | Some (Inl err) \<Rightarrow> Some (Inl err, db)
      | Some (Inr project) \<Rightarrow>
          Some (transaction self
                  (derived_feature_block self project_id defn uuid4
                     (e_qualified_name project @ ''__'' @ dfd_name defn))
                  db))"

section \<open>Project names in the access-control service (\<open>feathr_rbac/rbac/db_rbac.py\<close>)\<close>

record UserRole =
  project_name :: string
  user_name :: string
  role_name :: string
  delete_reason :: "string option"

text \<open>
  Modelled from the spec: \<open>rgm.SUPER_ADMIN_SCOPE\<close> of the absent
  \<open>feathr_rbac/rbac/models/base.py\<close> is the reserved global-scope name, \<open>global\<close>
  (the name \<open>_init_admin\<close> and \<open>DbRegistry._init_project\<close> write as a literal).
\<close>

definition SUPER_ADMIN_SCOPE :: string where
  "SUPER_ADMIN_SCOPE = ''global''"

text \<open>\<open>str.lower\<close> and \<open>str.casefold\<close>, on ASCII text, where the two agree.\<close>

definition lower_char :: "char \<Rightarrow> char" where
  "lower_char ch =
     (if 65 \<le> (of_char ch :: nat) \<and> (of_char ch :: nat) \<le> 90
      then char_of ((of_char ch :: nat) + 32) else ch)"

definition lower :: "string \<Rightarrow> string" where
  "lower s = map lower_char s"

definition casefold :: "string \<Rightarrow> string" where
  "casefold s = map lower_char s"

text \<open>\<open>admin\<close> is \<open>rgm.RoleType.ADMIN.value\<close>, a constant of the absent module.\<close>

definition init_project_admin ::
  "string \<Rightarrow> UserRole list \<Rightarrow> string \<Rightarrow> string \<Rightarrow> UserRole list" where
  "init_project_admin admin userroles creator_name project_name' =
     userroles @ [\<lparr>project_name = lower project_name', user_name = lower creator_name,
                   role_name = admin, delete_reason = None\<rparr>]"

definition init_userrole ::
  "string \<Rightarrow> UserRole list \<Rightarrow> string \<Rightarrow> string \<Rightarrow> (error + unit) \<times> UserRole list" where
  "init_userrole admin userroles creator_name project_name' =
     (if casefold project_name' = casefold SUPER_ADMIN_SCOPE then (Inl BadRequest, userroles)
      else if filter (\<lambda>r. delete_reason r = None \<and> project_name r = lower project_name')
                userroles \<noteq> []
      then (Inr (), userroles)
      else (Inr (), init_project_admin admin userroles creator_name project_name'))"

text \<open>
  \<open>new_project\<close> of \<open>rbac/api/v1/registry.py\<close>: \<open>rbac.init_userrole\<close> runs first, and
  only then is the request posted to the registry, whose handler calls
  \<open>create_project\<close>.
\<close>

definition new_project ::
  "string \<Rightarrow> db_conn \<Rightarrow> UserRole list \<times> database \<Rightarrow> string \<Rightarrow> ProjectDef \<Rightarrow> (nat \<Rightarrow> nat)
     \<Rightarrow> (error + ident) \<times> UserRole list \<times> database" where
  "new_project admin self st requestor defn uuid4 =
     (case init_userrole admin (fst st) requestor (pd_name defn) of
        (Inl err, userroles) \<Rightarrow> (Inl err, userroles, snd st)
      | (Inr u, userroles) \<Rightarrow>
          (case create_project self (snd st) defn uuid4 of
             (res, db) \<Rightarrow> (res, userroles, db)))"

section \<open>Stores and sequences of operations\<close>

text \<open>
  The uniqueness invariant of the entity table: no two rows have the same qualified name.
\<close>

definition unique_names :: "database \<Rightarrow> bool" where
  "unique_names db = distinct (map qualified_name (entities db))"

text \<open>
  The pairing invariant of the edge table: every Produces row from \<open>x\<close> to \<open>y\<close> has a
  Consumes row from \<open>y\<close> to \<open>x\<close>.
\<close>

definition lineage_pairs :: "database \<Rightarrow> bool" where
  "lineage_pairs db =
     list_all (\<lambda>e. conn_type e = Produces \<longrightarrow> edge_exists db (to_id e) (from_id e) Consumes)
       (edges db)"

text \<open>
  The edges of relation \<open>R\<close> form a chain from \<open>A\<close> over \<open>B\<close> and \<open>C\<close> to \<open>D\<close>: the
  \<open>R\<close>-edges that leave \<open>A\<close>, \<open>B\<close> and \<open>C\<close> are one edge each, to the next node, and
  no \<open>R\<close>-edge leaves \<open>D\<close>.
\<close>

definition is_chain ::
  "database \<Rightarrow> RelationshipType \<Rightarrow> ident \<Rightarrow> ident \<Rightarrow> ident \<Rightarrow> ident \<Rightarrow> bool" where
  "is_chain db R A B C D =
     (map to_id (u_bfs_step db [A] R) = [B] \<and> map to_id (u_bfs_step db [B] R) = [C]
      \<and> map to_id (u_bfs_step db [C] R) = [D] \<and> u_bfs_step db [D] R = [])"

text \<open>
  No Consumes edge points to an anchor. On such a store the recursion of \<open>get_entity\<close>
  ends after at most one step.
\<close>

definition no_anchor_consumed :: "database \<Rightarrow> bool" where
  "no_anchor_consumed db =
     list_all
       (\<lambda>n. conn_type n = Consumes \<longrightarrow>
            (case u_get_entity db (to_id n) of
               Inl err \<Rightarrow> True
             | Inr e \<Rightarrow> e_entity_type e \<noteq> Anchor))
       (edges db)"

fun is_uuid :: "ident \<Rightarrow> bool" where
  "is_uuid (UUID u) = True"
| "is_uuid (Text s) = False"



text \<open>
  A call of a creation operation with its arguments, and a sequence of such calls run
  one after the other; a call that raises leaves the store as it is at the exception and
  the sequence goes on.
\<close>

datatype operation =
    CreateProject ProjectDef "nat \<Rightarrow> nat"
  | CreateProjectDatasource ident SourceDef "nat \<Rightarrow> nat"
  | CreateProjectAnchor ident AnchorDef "nat \<Rightarrow> nat"
  | CreateProjectAnchorFeature ident ident AnchorFeatureDef "nat \<Rightarrow> nat"
  | CreateProjectDerivedFeature ident DerivedFeatureDef "nat \<Rightarrow> nat"

fun apply_operation ::
  "db_conn \<Rightarrow> operation \<Rightarrow> database \<Rightarrow> ((error + ident) \<times> database) option" where
  "apply_operation self (CreateProject defn uuid4) db =
     Some (create_project self db defn uuid4)"
| "apply_operation self (CreateProjectDatasource project_id defn uuid4) db =
     create_project_datasource self db project_id defn uuid4"
| "apply_operation self (CreateProjectAnchor project_id defn uuid4) db =
     create_project_anchor self db project_id defn uuid4"
| "apply_operation self (CreateProjectAnchorFeature project_id anchor_id defn uuid4) db =
     create_project_anchor_feature self db project_id anchor_id defn uuid4"
| "apply_operation self (CreateProjectDerivedFeature project_id defn uuid4) db =
     create_project_derived_feature self db project_id defn uuid4"

fun run :: "db_conn \<Rightarrow> operation list \<Rightarrow> database \<Rightarrow> database option" where
  "run self [] db = Some db"
| "run self (operation # operations) db =
     (case apply_operation self operation db of
        None \<Rightarrow> None
      | Some (res, db') \<Rightarrow> run self operations db')"

text \<open>
  A store that can be read: the entity ids are distinct, every row has attributes of its
  type, and every Consumes edge that leaves a stored anchor goes to the UUID of a stored
  entity that is not an anchor (the anchor's source).
\<close>

definition readable :: "database \<Rightarrow> bool" where
  "readable db =
     (distinct (map entity_id (entities db))
      \<and> list_all (\<lambda>r. type_of_attributes (attributes r) = entity_type r) (entities db)
      \<and> list_all
          (\<lambda>n. conn_type n = Consumes
                 \<and> (\<exists>a \<in> set (entities db). entity_id a = from_id n \<and> entity_type a = Anchor)
               \<longrightarrow> is_uuid (to_id n)
                   \<and> (\<exists>r \<in> set (entities db). entity_id r = to_id n \<and> entity_type r \<noteq> Anchor))
          (edges db))"

text \<open>The id \<open>i\<close> is not the id of a stored anchor without a Consumes edge.\<close>

definition sourced :: "database \<Rightarrow> ident \<Rightarrow> bool" where
  "sourced db i =
     list_all (\<lambda>r. entity_id r = i \<and> entity_type r = Anchor \<longrightarrow> u_bfs_step db [i] Consumes \<noteq> [])
       (entities db)"

text \<open>
  The graph of the edges of one relationship, the stored rows that can be reached from
  an id along it (the row of the id itself among them), and the ids from which no other
  stored entity is reached.
\<close>

definition edge_rel :: "database \<Rightarrow> RelationshipType \<Rightarrow> (ident \<times> ident) set" where
  "edge_rel db ct =
     set (map (\<lambda>e. (from_id e, to_id e)) (filter (\<lambda>e. conn_type e = ct) (edges db)))"

definition reached :: "database \<Rightarrow> RelationshipType \<Rightarrow> ident \<Rightarrow> entity_row list" where
  "reached db ct i =
     filter (\<lambda>r. entity_id r = i \<or> (i, entity_id r) \<in> (edge_rel db ct)\<^sup>+) (entities db)"

definition reaches_only_itself :: "database \<Rightarrow> RelationshipType \<Rightarrow> ident \<Rightarrow> bool" where
  "reaches_only_itself db ct i = (entity_id ` set (reached db ct i) = {i})"

text \<open>
  The two passes of \<open>delete_empty_entities\<close> as the documentation describes them: a
  pass goes through the list and deletes every entity of the type \<open>ty\<close> from which, at
  that moment, no other stored entity is reached along \<open>ct\<close>; the pass for anchors and
  Contains comes first, the pass for sources and Produces second.
\<close>

fun pass ::
  "db_conn \<Rightarrow> EntityType \<Rightarrow> RelationshipType \<Rightarrow> Entity list \<Rightarrow> database \<Rightarrow> database" where
  "pass self ty ct [] db = db"
| "pass self ty ct (e # es) db =
     (if e_entity_type e = ty \<and> reaches_only_itself db ct (e_id e)
      then pass self ty ct es (snd (delete_entity self db (e_id e)))
      else pass self ty ct es db)"

definition two_passes :: "db_conn \<Rightarrow> database \<Rightarrow> Entity list \<Rightarrow> database" where
  "two_passes self db es = pass self Source Produces es (pass self Anchor Contains es db)"

text \<open>
  A store on which the clean-up can run: it can be read, the Contains edges and the
  Produces edges have no cycle and connect UUIDs, and every stored anchor with a UUID
  has a Consumes edge, each of them with its Produces edge in the other direction.
\<close>

definition cleanable :: "database \<Rightarrow> bool" where
  "cleanable db =
     (readable db
      \<and> acyclic (edge_rel db Contains) \<and> acyclic (edge_rel db Produces)
      \<and> list_all
          (\<lambda>e. conn_type e = Contains \<or> conn_type e = Produces
               \<longrightarrow> is_uuid (from_id e) \<and> is_uuid (to_id e))
          (edges db)
      \<and> list_all (\<lambda>a. is_uuid (entity_id a) \<longrightarrow> sourced db (entity_id a)) (entities db)
      \<and> list_all
          (\<lambda>n. conn_type n = Consumes
                 \<and> (\<exists>a \<in> set (entities db). entity_id a = from_id n \<and> entity_type a = Anchor)
               \<longrightarrow> edge_exists db (to_id n) (from_id n) Produces)
          (edges db))"

text \<open>
  The entities of a list are stored under their UUIDs with their types, each once; and
  the same for the entities of one type only.
\<close>

definition listed_of :: "EntityType \<Rightarrow> database \<Rightarrow> Entity list \<Rightarrow> bool" where
  "listed_of ty db es =
     (distinct (map e_id (filter (\<lambda>e. e_entity_type e = ty) es))
      \<and> list_all
          (\<lambda>e. e_entity_type e = ty
               \<longrightarrow> is_uuid (e_id e)
                   \<and> (\<exists>r \<in> set (entities db). entity_id r = e_id e \<and> entity_type r = ty))
          es)"

definition listed :: "database \<Rightarrow> Entity list \<Rightarrow> bool" where
  "listed db es =
     (distinct (map e_id es)
      \<and> list_all
          (\<lambda>e. is_uuid (e_id e)
               \<and> (\<exists>r \<in> set (entities db).
                      entity_id r = e_id e \<and> entity_type r = e_entity_type e))
          es)"

text \<open>
  The position of the first row with the id \<open>x\<close> in a list of rows; the length of the
  list when no row has that id.
\<close>

definition position :: "entity_row list \<Rightarrow> ident \<Rightarrow> nat" where
  "position rows x = length (takeWhile (\<lambda>r. entity_id r \<noteq> x) rows)"

text \<open>
  Among the rows, \<open>a\<close> may consume \<open>b\<close>: \<open>a\<close> is a UUID, \<open>b\<close> is the id of a row that is
  not an anchor, and the first row of \<open>b\<close> comes before the first row of \<open>a\<close>, if \<open>a\<close>
  has one.
\<close>

definition consumable :: "entity_row list \<Rightarrow> ident \<Rightarrow> ident \<Rightarrow> bool" where
  "consumable rows a b =
     (is_uuid a \<and> (\<exists>r \<in> set rows. entity_id r = b \<and> entity_type r \<noteq> Anchor)
      \<and> position rows b < position rows a)"

text \<open>
  A well-formed store: the entity ids are distinct, every row has attributes of its type
  and, unless it is an anchor, a UUID as its id, every Consumes edge goes from an id to
  one it may consume, and the Produces edges are paired.
\<close>

definition well_formed :: "database \<Rightarrow> bool" where
  "well_formed db =
     (distinct (map entity_id (entities db))
      \<and> list_all
          (\<lambda>r. type_of_attributes (attributes r) = entity_type r
               \<and> (entity_type r \<noteq> Anchor \<longrightarrow> is_uuid (entity_id r)))
          (entities db)
      \<and> list_all
          (\<lambda>e. conn_type e = Consumes \<longrightarrow> consumable (entities db) (from_id e) (to_id e))
          (edges db)
      \<and> lineage_pairs db)"

definition well_formed_with :: "entity_row list \<Rightarrow> database \<Rightarrow> bool" where
  "well_formed_with rows db = (well_formed db \<and> entities db = rows)"

text \<open>
  The values of \<open>uuid4()\<close> during a call, and the sequences of calls in which the id that
  \<open>uuid4()\<close> returns for the new entity is never the id of a row stored at that call.
\<close>

fun uuid4_of :: "operation \<Rightarrow> nat \<Rightarrow> nat" where
  "uuid4_of (CreateProject defn uuid4) = uuid4"
| "uuid4_of (CreateProjectDatasource project_id defn uuid4) = uuid4"
| "uuid4_of (CreateProjectAnchor project_id defn uuid4) = uuid4"
| "uuid4_of (CreateProjectAnchorFeature project_id anchor_id defn uuid4) = uuid4"
| "uuid4_of (CreateProjectDerivedFeature project_id defn uuid4) = uuid4"

fun fresh_ids :: "db_conn \<Rightarrow> operation list \<Rightarrow> database \<Rightarrow> bool" where
  "fresh_ids self [] db = True"
| "fresh_ids self (operation # operations) db =
     (UUID (uuid4_of operation 0) \<notin> set (map entity_id (entities db))
      \<and> (case apply_operation self operation db of
           None \<Rightarrow> True
         | Some (res, db') \<Rightarrow> fresh_ids self operations db'))"

text \<open>The rows of the edge table with a given triple.\<close>

definition edges_with :: "database \<Rightarrow> ident \<Rightarrow> ident \<Rightarrow> RelationshipType \<Rightarrow> edge_row list" where
  "edges_with db f t ty =
     filter (\<lambda>e. from_id e = f \<and> to_id e = t \<and> conn_type e = ty) (edges db)"

definition empty_database :: database where
  "empty_database = \<lparr>entities = [], edges = []\<rparr>"

text \<open>Sample values of \<open>uuid4()\<close>: distinct ones, and a repeated edge id.\<close>

definition uuids_from :: "nat \<Rightarrow> nat \<Rightarrow> nat" where
  "uuids_from b k = b + k"

definition repeated_uuid :: "nat \<Rightarrow> nat \<Rightarrow> nat" where
  "repeated_uuid b k = (if k = 0 then b else b + 1)"

definition no_text :: "ident \<Rightarrow> bool" where
  "no_text x = False"

text \<open>Sample stores: a project, a source in it, and an anchor over the source.\<close>

definition project_p1 :: entity_row where
  "project_p1 =
     \<lparr>entity_id = UUID 100, qualified_name = ''p1'', entity_type = Project,
      attributes = ProjectAttributes ''p1''\<rparr>"

definition source_s1 :: entity_row where
  "source_s1 =
     \<lparr>entity_id = UUID 200, qualified_name = ''p1__s1'', entity_type = Source,
      attributes = SourceAttributes ''s1'' ''csv'' ''{}'' ''none'' ''ts'' ''epoch''\<rparr>"

definition source_s2 :: entity_row where
  "source_s2 =
     \<lparr>entity_id = UUID 210, qualified_name = ''p1__s2'', entity_type = Source,
      attributes = SourceAttributes ''s2'' ''csv'' ''{}'' ''none'' ''ts'' ''epoch''\<rparr>"

definition def_s1 :: SourceDef where
  "def_s1 =
     \<lparr>sd_name = ''s1'', sd_type = ''csv'', sd_options = ''{}'', sd_preprocessing = ''none'',
      sd_event_timestamp_column = ''ts'', sd_timestamp_format = ''epoch''\<rparr>"

definition store_p1 :: database where
  "store_p1 = \<lparr>entities = [project_p1], edges = []\<rparr>"

definition edges_s1 :: "edge_row list" where
  "edges_s1 =
     [\<lparr>edge_id = UUID 201, from_id = UUID 100, to_id = UUID 200, conn_type = Contains\<rparr>,
      \<lparr>edge_id = UUID 202, from_id = UUID 200, to_id = UUID 100, conn_type = BelongsTo\<rparr>]"

definition edges_s2 :: "edge_row list" where
  "edges_s2 =
     [\<lparr>edge_id = UUID 211, from_id = UUID 100, to_id = UUID 210, conn_type = Contains\<rparr>,
      \<lparr>edge_id = UUID 212, from_id = UUID 210, to_id = UUID 100, conn_type = BelongsTo\<rparr>]"

definition store_p1_s1 :: database where
  "store_p1_s1 = \<lparr>entities = [project_p1, source_s1], edges = edges_s1\<rparr>"

definition def_a1 :: "ident \<Rightarrow> AnchorDef" where
  "def_a1 source_id = \<lparr>ad_name = ''a1'', ad_source_id = source_id\<rparr>"

definition anchor_a1 :: "ident \<Rightarrow> entity_row" where
  "anchor_a1 i =
     \<lparr>entity_id = i, qualified_name = ''p1__a1'', entity_type = Anchor,
      attributes =
        AnchorAttributes ''a1''
          \<lparr>ref_id = UUID 200, ref_type = Source, ref_qualified_name = ''p1__s1''\<rparr>\<rparr>"

definition edges_a1 :: "edge_row list" where
  "edges_a1 =
     [\<lparr>edge_id = UUID 301, from_id = UUID 100, to_id = UUID 300, conn_type = Contains\<rparr>,
      \<lparr>edge_id = UUID 302, from_id = UUID 300, to_id = UUID 100, conn_type = BelongsTo\<rparr>,
      \<lparr>edge_id = UUID 303, from_id = UUID 300, to_id = UUID 200, conn_type = Consumes\<rparr>,
      \<lparr>edge_id = UUID 304, from_id = UUID 200, to_id = UUID 300, conn_type = Produces\<rparr>]"

definition store_anchor :: "ident \<Rightarrow> database" where
  "store_anchor i =
     \<lparr>entities = [project_p1, source_s1, anchor_a1 i], edges = edges_s1 @ edges_a1\<rparr>"

definition store_two_sources :: database where
  "store_two_sources =
     \<lparr>entities = [project_p1, source_s1, source_s2, anchor_a1 (UUID 300)],
      edges = edges_s1 @ edges_s2 @ edges_a1\<rparr>"

definition def_f1 :: AnchorFeatureDef where
  "def_f1 =
     \<lparr>afd_name = ''f1'', afd_feature_type = ''int'', afd_transformation = ''x + 1'',
      afd_key = ''id''\<rparr>"

definition def_d1 :: DerivedFeatureDef where
  "def_d1 =
     \<lparr>dfd_name = ''d1'', dfd_feature_type = ''int'', dfd_transformation = ''f1 * 2'',
      dfd_key = ''id'', dfd_input_anchor_features = [UUID 400],
      dfd_input_derived_features = []\<rparr>"

definition feature_f1 :: entity_row where
  "feature_f1 =
     \<lparr>entity_id = UUID 400, qualified_name = ''p1__a1__f1'', entity_type = AnchorFeature,
      attributes = AnchorFeatureAttributes ''f1'' ''int'' ''x + 1'' ''id''\<rparr>"

definition derived_d1 :: entity_row where
  "derived_d1 =
     \<lparr>entity_id = UUID 500, qualified_name = ''p1__d1'', entity_type = DerivedFeature,
      attributes =
        DerivedFeatureAttributes ''d1'' ''int'' ''f1 * 2'' ''id''
          [\<lparr>ref_id = UUID 400, ref_type = AnchorFeature,
            ref_qualified_name = ''p1__a1__f1''\<rparr>]\<rparr>"

definition edges_f1 :: "edge_row list" where
  "edges_f1 =
     [\<lparr>edge_id = UUID 401, from_id = UUID 100, to_id = UUID 400, conn_type = Contains\<rparr>,
      \<lparr>edge_id = UUID 402, from_id = UUID 400, to_id = UUID 100, conn_type = BelongsTo\<rparr>,
      \<lparr>edge_id = UUID 403, from_id = UUID 300, to_id = UUID 400, conn_type = Contains\<rparr>,
      \<lparr>edge_id = UUID 404, from_id = UUID 400, to_id = UUID 300, conn_type = BelongsTo\<rparr>,
      \<lparr>edge_id = UUID 405, from_id = UUID 400, to_id = UUID 200, conn_type = Consumes\<rparr>,
      \<lparr>edge_id = UUID 406, from_id = UUID 200, to_id = UUID 400, conn_type = Produces\<rparr>]"

definition edges_d1 :: "edge_row list" where
  "edges_d1 =
     [\<lparr>edge_id = UUID 501, from_id = UUID 100, to_id = UUID 500, conn_type = Contains\<rparr>,
      \<lparr>edge_id = UUID 502, from_id = UUID 500, to_id = UUID 100, conn_type = BelongsTo\<rparr>,
      \<lparr>edge_id = UUID 503, from_id = UUID 500, to_id = UUID 400, conn_type = Consumes\<rparr>,
      \<lparr>edge_id = UUID 504, from_id = UUID 400, to_id = UUID 500, conn_type = Produces\<rparr>]"

definition store_full :: database where
  "store_full =
     \<lparr>entities = [project_p1, source_s1, anchor_a1 (UUID 300), feature_f1, derived_d1],
      edges = edges_s1 @ edges_a1 @ edges_f1 @ edges_d1\<rparr>"

text \<open>
  A store in which the qualified names \<open>p1__s1\<close>, \<open>p1__a1\<close> and \<open>p1__a1__f1\<close> are
  taken, the last one by a source named \<open>a1__f1\<close>.
\<close>

definition source_a1_f1 :: entity_row where
  "source_a1_f1 =
     \<lparr>entity_id = UUID 220, qualified_name = ''p1__a1__f1'', entity_type = Source,
      attributes = SourceAttributes ''a1__f1'' ''csv'' ''{}'' ''none'' ''ts'' ''epoch''\<rparr>"

definition store_taken :: database where
  "store_taken =
     \<lparr>entities = [project_p1, source_s1, anchor_a1 (UUID 300), source_a1_f1],
      edges = edges_s1 @ edges_a1\<rparr>"

text \<open>What \<open>get_entity\<close> returns on that store for the project and for the anchor.\<close>

definition entity_s1 :: Entity where
  "entity_s1 =
     Entity (UUID 200) ''p1__s1'' Source
       (SourceAttributes ''s1'' ''csv'' ''{}'' ''none'' ''ts'' ''epoch'') [] [] None []"

definition entity_a1 :: "Entity option \<Rightarrow> Entity" where
  "entity_a1 src =
     Entity (UUID 300) ''p1__a1'' Anchor
       (AnchorAttributes ''a1''
          \<lparr>ref_id = UUID 200, ref_type = Source, ref_qualified_name = ''p1__s1''\<rparr>)
       [] [] src []"

definition entity_p1 :: Entity where
  "entity_p1 =
     Entity (UUID 100) ''p1'' Project (ProjectAttributes ''p1'')
       [entity_s1, entity_a1 None] [] None []"

text \<open>
  A chain of Produces edges: the anchor feature 1 is an input of the derived feature 2,
  which is an input of 3, which is an input of 4.
\<close>

definition chain_feature :: "nat \<Rightarrow> entity_row" where
  "chain_feature k =
     \<lparr>entity_id = UUID k, qualified_name = ''p__f'', entity_type = AnchorFeature,
      attributes = AnchorFeatureAttributes ''f'' ''int'' ''x'' ''id''\<rparr>"

definition chain_derived :: "nat \<Rightarrow> string \<Rightarrow> entity_row" where
  "chain_derived k name =
     \<lparr>entity_id = UUID k, qualified_name = ''p__'' @ name, entity_type = DerivedFeature,
      attributes = DerivedFeatureAttributes name ''int'' ''y'' ''id'' []\<rparr>"

definition chain_edges :: "nat \<Rightarrow> nat \<Rightarrow> nat \<Rightarrow> edge_row list" where
  "chain_edges k x y =
     [\<lparr>edge_id = UUID k, from_id = UUID y, to_id = UUID x, conn_type = Consumes\<rparr>,
      \<lparr>edge_id = UUID (k + 1), from_id = UUID x, to_id = UUID y, conn_type = Produces\<rparr>]"

definition store_chain :: database where
  "store_chain =
     \<lparr>entities = [chain_feature 1, chain_derived 2 ''d2'', chain_derived 3 ''d3'',
                  chain_derived 4 ''d4''],
      edges = chain_edges 10 1 2 @ chain_edges 20 2 3 @ chain_edges 30 3 4\<rparr>"

text \<open>What \<open>get_entity\<close> and \<open>get_dependent_entities\<close> return for the start of the chain.\<close>

definition chain_start :: Entity where
  "chain_start =
     Entity (UUID 1) ''p__f'' AnchorFeature (AnchorFeatureAttributes ''f'' ''int'' ''x'' ''id'')
       [] [] None []"

definition chain_entity :: "nat \<Rightarrow> string \<Rightarrow> Entity list \<Rightarrow> Entity" where
  "chain_entity k name inputs =
     Entity (UUID k) (''p__'' @ name) DerivedFeature
       (DerivedFeatureAttributes name ''int'' ''y'' ''id'' []) [] [] None inputs"

definition chain_result :: "Entity list" where
  "chain_result =
     [chain_entity 2 ''d2'' [chain_start],
      chain_entity 3 ''d3'' [chain_entity 2 ''d2'' []],
      chain_entity 4 ''d4'' [chain_entity 3 ''d3'' []]]"

text \<open>
  A store with two chains of Contains edges: from the anchor 2 over the features 3 and 4
  to 5, and from the project 1 over the derived features 6 and 7 to 8. The anchor's
  source is 9.
\<close>

definition nested_source :: entity_row where
  "nested_source =
     \<lparr>entity_id = UUID 9, qualified_name = ''n__s'', entity_type = Source,
      attributes = SourceAttributes ''s'' ''csv'' ''{}'' ''none'' ''ts'' ''epoch''\<rparr>"

definition nested_project :: entity_row where
  "nested_project =
     \<lparr>entity_id = UUID 1, qualified_name = ''n'', entity_type = Project,
      attributes = ProjectAttributes ''n''\<rparr>"

definition nested_anchor :: entity_row where
  "nested_anchor =
     \<lparr>entity_id = UUID 2, qualified_name = ''n__a'', entity_type = Anchor,
      attributes =
        AnchorAttributes ''a''
          \<lparr>ref_id = UUID 9, ref_type = Source, ref_qualified_name = ''n__s''\<rparr>\<rparr>"

definition contains_edge :: "nat \<Rightarrow> nat \<Rightarrow> nat \<Rightarrow> edge_row" where
  "contains_edge k x y =
     \<lparr>edge_id = UUID k, from_id = UUID x, to_id = UUID y, conn_type = Contains\<rparr>"

definition store_nested :: database where
  "store_nested =
     \<lparr>entities = [nested_source, nested_project, nested_anchor, chain_feature 3,
                  chain_feature 4, chain_feature 5, chain_derived 6 ''d6'',
                  chain_derived 7 ''d7'', chain_derived 8 ''d8''],
      edges = [contains_edge 23 2 3, contains_edge 34 3 4, contains_edge 45 4 5,
               contains_edge 16 1 6, contains_edge 67 6 7, contains_edge 78 7 8,
               \<lparr>edge_id = UUID 29, from_id = UUID 2, to_id = UUID 9, conn_type = Consumes\<rparr>]\<rparr>"

text \<open>
  The store that the SQLAlchemy mode leaves when the feature \<open>f1\<close> of the anchor \<open>a1\<close>
  has been deleted: the row is gone, the feature's edges are still stored.
\<close>

definition store_stale :: database where
  "store_stale =
     \<lparr>entities = [project_p1, source_s1, anchor_a1 (UUID 300)],
      edges = edges_s1 @ edges_a1 @ edges_f1\<rparr>"

text \<open>The five creation operations, called one after the other on the empty store.\<close>

definition sample_operations :: "operation list" where
  "sample_operations =
     [CreateProject \<lparr>pd_name = ''p1''\<rparr> (uuids_from 100),
      CreateProjectDatasource (UUID 100) def_s1 (uuids_from 200),
      CreateProjectAnchor (UUID 100) (def_a1 (UUID 200)) (uuids_from 300),
      CreateProjectAnchorFeature (UUID 100) (UUID 300) def_f1 (uuids_from 400),
      CreateProjectDerivedFeature (UUID 100) def_d1 (uuids_from 500)]"

section \<open>Uniqueness of qualified names\<close>

lemma then_do_snd:
  assumes "P (snd m)" and "\<And>v d. P d \<Longrightarrow> P (snd (f v d))"
  shows "P (snd (then_do m f))"
  using assms by (cases m) (auto simp: then_do_def split: sum.splits)

lemma transaction_snd:
  assumes "P db" and "P (snd (body (make_handle self) db))"
  shows "P (snd (transaction self body db))"
  using assms
  by (cases "body (make_handle self) db"; cases "make_handle self")
     (auto simp: transaction_def split: sum.splits)

lemma insert_edge_entities [simp]: "entities (snd (insert_edge row db)) = entities db"
  by (simp add: insert_edge_def)

lemma u_create_edge_entities [simp]:
  "entities (snd (u_create_edge self c u f t ty db)) = entities db"
  by (simp add: u_create_edge_def Let_def)

lemma create_input_edges_entities [simp]:
  "entities (snd (create_input_edges self c g k i rs db)) = entities db"
proof (induction rs arbitrary: k db)
  case Nil
  then show ?case by simp
next
  case (Cons r rs)
  show ?case
    apply (simp only: create_input_edges.simps)
    apply (rule then_do_snd, simp)
    apply (rule then_do_snd, simp)
    apply (simp add: Cons.IH)
    done
qed

lemma insert_entity_unique:
  assumes "unique_names db" and "rows_named db (qualified_name row) = []"
  shows "unique_names (snd (insert_entity row db))"
proof -
  from assms(2) have "qualified_name row \<notin> set (map qualified_name (entities db))"
    by (auto simp: rows_named_def filter_empty_conv)
  with assms(1) show ?thesis
    by (simp add: insert_entity_def unique_names_def)
qed

lemma u_create_edge_unique:
  "unique_names d \<Longrightarrow> unique_names (snd (u_create_edge self c u f t ty d))"
  by (simp add: unique_names_def)

lemma create_input_edges_unique:
  "unique_names d \<Longrightarrow> unique_names (snd (create_input_edges self c g k i rs d))"
  by (simp add: unique_names_def)

lemma return_unique: "unique_names d \<Longrightarrow> unique_names (snd (r, d))"
  by simp

lemmas unique_intros =
  then_do_snd [where P = unique_names] u_create_edge_unique create_input_edges_unique
  return_unique

lemma project_block_unique:
  assumes "unique_names db"
  shows "unique_names (snd (project_block defn g c db))"
proof (cases "rows_named db (pd_name defn)")
  case Nil
  then show ?thesis
    unfolding project_block_def project_new_def
    by (simp, intro unique_intros insert_entity_unique assms) simp_all
next
  case (Cons row rest)
  then show ?thesis
    by (simp add: project_block_def project_found_def assms)
qed

lemma datasource_block_unique:
  assumes "unique_names db"
  shows "unique_names (snd (datasource_block self pid defn g qn c db))"
proof (cases "rows_named db qn")
  case Nil
  then show ?thesis
    unfolding datasource_block_def datasource_new_def
    by (simp, intro unique_intros insert_entity_unique assms) simp_all
next
  case (Cons row rest)
  then show ?thesis
    by (simp add: datasource_block_def datasource_found_def assms split: Attributes.splits)
qed

lemma anchor_block_unique:
  assumes "unique_names db"
  shows "unique_names (snd (anchor_block self pid defn g qn c db))"
proof (cases "rows_named db qn")
  case Nil
  show ?thesis
  proof (cases "filter (\<lambda>r. entity_id r = ad_source_id defn \<and> entity_type r = Source)
                  (entities db)")
    case Nil' : Nil
    with Nil show ?thesis
      by (simp add: anchor_block_def anchor_new_def assms)
  next
    case (Cons s ss)
    with Nil show ?thesis
      unfolding anchor_block_def anchor_new_def
      by (simp split del: if_split, intro unique_intros insert_entity_unique assms) simp_all
  qed
next
  case (Cons row rest)
  then show ?thesis
    by (simp add: anchor_block_def anchor_found_def assms split: Attributes.splits)
qed

lemma anchor_feature_block_unique:
  assumes "unique_names db"
  shows "unique_names (snd (anchor_feature_block self pid aid anchor defn g qn c db))"
proof (cases "rows_named db qn")
  case Nil
  show ?thesis
  proof (cases "e_source anchor")
    case None
    with Nil show ?thesis
      by (simp add: anchor_feature_block_def anchor_feature_new_def assms)
  next
    case (Some source)
    with Nil show ?thesis
      unfolding anchor_feature_block_def anchor_feature_new_def
      by (simp, intro unique_intros insert_entity_unique assms) simp_all
  qed
next
  case (Cons row rest)
  then show ?thesis
    by (simp add: anchor_feature_block_def anchor_feature_found_def assms
        split: Attributes.splits)
qed

lemma derived_feature_insert_unique:
  assumes "unique_names db" and "rows_named db qn = []"
  shows "unique_names (snd (derived_feature_insert self pid defn g qn c inputs db))"
  unfolding derived_feature_insert_def
  by (intro unique_intros insert_entity_unique assms) (simp_all add: assms)

lemma derived_feature_block_unique:
  assumes "unique_names db"
  shows "unique_names (snd (derived_feature_block self pid defn g qn c db))"
proof (cases "rows_named db qn")
  case Nil
  then show ?thesis
    by (simp add: derived_feature_block_def derived_feature_new_def assms
        derived_feature_insert_unique)
next
  case (Cons row rest)
  then show ?thesis
    by (simp add: derived_feature_block_def derived_feature_found_def assms
        split: Attributes.splits)
qed

text \<open>A property of the store that every block keeps is kept by every operation.\<close>

lemma apply_operation_keeps:
  assumes "P db"
    and "apply_operation self operation db = Some (res, db')"
    and "\<And>defn g c. P (snd (project_block defn g c db))"
    and "\<And>pid defn g qn c. P (snd (datasource_block self pid defn g qn c db))"
    and "\<And>pid defn g qn c. P (snd (anchor_block self pid defn g qn c db))"
    and "\<And>pid aid anchor defn g qn c.
           P (snd (anchor_feature_block self pid aid anchor defn g qn c db))"
    and "\<And>pid defn g qn c. P (snd (derived_feature_block self pid defn g qn c db))"
  shows "P db'"
proof (cases operation)
  case (CreateProject defn g)
  have "P (snd (create_project self db defn g))"
    unfolding create_project_def by (rule transaction_snd) (rule assms)+
  with CreateProject assms(2) show ?thesis by auto
next
  case (CreateProjectDatasource pid defn g)
  show ?thesis
  proof (cases "get_entity db pid")
    case None
    with CreateProjectDatasource assms(2) show ?thesis
      by (simp add: create_project_datasource_def)
  next
    case (Some r)
    show ?thesis
    proof (cases r)
      case (Inl err)
      with Some CreateProjectDatasource assms(1,2) show ?thesis
        by (auto simp: create_project_datasource_def)
    next
      case (Inr project)
      have "P (snd (transaction self
               (datasource_block self pid defn g (e_qualified_name project @ ''__'' @ sd_name defn))
               db))"
        by (rule transaction_snd) (rule assms)+
      with Inr Some CreateProjectDatasource assms(2) show ?thesis
        by (auto simp: create_project_datasource_def)
    qed
  qed
next
  case (CreateProjectAnchor pid defn g)
  show ?thesis
  proof (cases "get_entity db pid")
    case None
    with CreateProjectAnchor assms(2) show ?thesis
      by (simp add: create_project_anchor_def)
  next
    case (Some r)
    show ?thesis
    proof (cases r)
      case (Inl err)
      with Some CreateProjectAnchor assms(1,2) show ?thesis
        by (auto simp: create_project_anchor_def)
    next
      case (Inr project)
      have "P (snd (transaction self
               (anchor_block self pid defn g (e_qualified_name project @ ''__'' @ ad_name defn))
               db))"
        by (rule transaction_snd) (rule assms)+
      with Inr Some CreateProjectAnchor assms(2) show ?thesis
        by (auto simp: create_project_anchor_def)
    qed
  qed
next
  case (CreateProjectAnchorFeature pid aid defn g)
  show ?thesis
  proof (cases "get_entity db aid")
    case None
    with CreateProjectAnchorFeature assms(2) show ?thesis
      by (simp add: create_project_anchor_feature_def)
  next
    case (Some r)
    show ?thesis
    proof (cases r)
      case (Inl err)
      with Some CreateProjectAnchorFeature assms(1,2) show ?thesis
        by (auto simp: create_project_anchor_feature_def)
    next
      case (Inr anchor)
      have "P (snd (transaction self
               (anchor_feature_block self pid aid anchor defn g
                  (e_qualified_name anchor @ ''__'' @ afd_name defn))
               db))"
        by (rule transaction_snd) (rule assms)+
      with Inr Some CreateProjectAnchorFeature assms(2) show ?thesis
        by (auto simp: create_project_anchor_feature_def)
    qed
  qed
next
  case (CreateProjectDerivedFeature pid defn g)
  show ?thesis
  proof (cases "get_entity db pid")
    case None
    with CreateProjectDerivedFeature assms(2) show ?thesis
      by (simp add: create_project_derived_feature_def)
  next
    case (Some r)
    show ?thesis
    proof (cases r)
      case (Inl err)
      with Some CreateProjectDerivedFeature assms(1,2) show ?thesis
        by (auto simp: create_project_derived_feature_def)
    next
      case (Inr project)
      have "P (snd (transaction self
               (derived_feature_block self pid defn g
                  (e_qualified_name project @ ''__'' @ dfd_name defn))
               db))"
        by (rule transaction_snd) (rule assms)+
      with Inr Some CreateProjectDerivedFeature assms(2) show ?thesis
        by (auto simp: create_project_derived_feature_def)
    qed
  qed
qed

lemma run_keeps:
  assumes "\<And>db operation res db'.
             P db \<Longrightarrow> apply_operation self operation db = Some (res, db') \<Longrightarrow> P db'"
  shows "P db \<Longrightarrow> run self operations db = Some db' \<Longrightarrow> P db'"
proof (induction operations arbitrary: db)
  case Nil
  then show ?case by simp
next
  case (Cons operation operations)
  from Cons.prems(2) obtain res d where
    step: "apply_operation self operation db = Some (res, d)" and
    rest: "run self operations d = Some db'"
    by (auto split: option.splits)
  from assms [OF Cons.prems(1) step] have "P d" .
  from Cons.IH [OF this rest] show ?case .
qed

lemma apply_operation_unique:
  assumes "unique_names db" and "apply_operation self operation db = Some (res, db')"
  shows "unique_names db'"
  using assms
  by (rule apply_operation_keeps)
     (simp_all add: assms(1) project_block_unique datasource_block_unique anchor_block_unique
       anchor_feature_block_unique derived_feature_block_unique)

text \<open>
  C1. Uniqueness of qualified names is an invariant of the store: if no two rows of the
  entity table share a qualified name, then after any sequence of calls of the five
  creation operations (in either mode, whatever ids \<open>uuid4()\<close> returns, and whether
  the calls return or raise) no two rows share one. The empty store satisfies it.
\<close>

theorem qualified_names_stay_unique:
  assumes "unique_names db" and "run self operations db = Some db'"
  shows "unique_names db'"
  using apply_operation_unique assms by (rule run_keeps)

theorem qualified_names_stay_unique_witness:
  "unique_names empty_database
   \<and> run (SQLAlchemyConnection no_text) sample_operations empty_database = Some store_full
   \<and> unique_names store_full"
proof -
  have a: "unique_names empty_database"
    by code_simp
  have b: "run (SQLAlchemyConnection no_text) sample_operations empty_database = Some store_full"
    by code_simp
  show ?thesis
    using a b qualified_names_stay_unique [OF a b] by simp
qed

section \<open>Conflicting creation\<close>

lemma rollback_same [simp]: "rollback c db db = db"
  by (cases c) auto

lemma transaction_raise_unchanged:
  assumes "body (make_handle self) db = (Inl e, db)"
  shows "transaction self body db = (Inl e, db)"
  using assms by (simp add: transaction_def)

lemma create_project_conflict:
  assumes "rows_named db (pd_name defn) = [row]" and "entity_type row \<noteq> Project"
  shows "create_project self db defn g = (Inl ConflictError, db)"
  unfolding create_project_def
  by (rule transaction_raise_unchanged) (simp add: project_block_def project_found_def assms)

lemma create_project_datasource_conflict:
  assumes "get_entity db pid = Some (Inr project)"
    and "rows_named db (e_qualified_name project @ ''__'' @ sd_name defn) = [row]"
    and "entity_type row \<noteq> Source
         \<or> entity_type row = Source \<and> attributes row = SourceAttributes n t opt pre ets tf
           \<and> (n \<noteq> sd_name defn \<or> t \<noteq> sd_type defn \<or> opt \<noteq> sd_options defn
              \<or> pre \<noteq> sd_preprocessing defn \<or> ets \<noteq> sd_event_timestamp_column defn
              \<or> tf \<noteq> sd_timestamp_format defn)"
  shows "create_project_datasource self db pid defn g = Some (Inl ConflictError, db)"
proof -
  have "datasource_block self pid defn g (e_qualified_name project @ ''__'' @ sd_name defn)
          (make_handle self) db = (Inl ConflictError, db)"
    using assms(2,3) by (auto simp: datasource_block_def datasource_found_def)
  then show ?thesis
    by (simp add: create_project_datasource_def assms(1) transaction_raise_unchanged)
qed

lemma create_project_anchor_conflict:
  assumes "get_entity db pid = Some (Inr project)"
    and "rows_named db (e_qualified_name project @ ''__'' @ ad_name defn) = [row]"
    and "entity_type row \<noteq> Anchor
         \<or> entity_type row = Anchor \<and> attributes row = AnchorAttributes n src
           \<and> n \<noteq> ad_name defn"
  shows "create_project_anchor self db pid defn g = Some (Inl ConflictError, db)"
proof -
  have "anchor_block self pid defn g (e_qualified_name project @ ''__'' @ ad_name defn)
          (make_handle self) db = (Inl ConflictError, db)"
    using assms(2,3) by (auto simp: anchor_block_def anchor_found_def)
  then show ?thesis
    by (simp add: create_project_anchor_def assms(1) transaction_raise_unchanged)
qed

lemma create_project_anchor_feature_conflict:
  assumes "get_entity db aid = Some (Inr anchor)"
    and "rows_named db (e_qualified_name anchor @ ''__'' @ afd_name defn) = [row]"
    and "entity_type row \<noteq> AnchorFeature
         \<or> entity_type row = AnchorFeature \<and> attributes row = AnchorFeatureAttributes n t tr k
           \<and> (n \<noteq> afd_name defn \<or> t \<noteq> afd_feature_type defn
              \<or> tr \<noteq> afd_transformation defn \<or> k \<noteq> afd_key defn)"
  shows "create_project_anchor_feature self db pid aid defn g = Some (Inl ConflictError, db)"
proof -
  have "anchor_feature_block self pid aid anchor defn g
          (e_qualified_name anchor @ ''__'' @ afd_name defn) (make_handle self) db
        = (Inl ConflictError, db)"
    using assms(2,3) by (auto simp: anchor_feature_block_def anchor_feature_found_def)
  then show ?thesis
    by (simp add: create_project_anchor_feature_def assms(1) transaction_raise_unchanged)
qed

lemma create_project_derived_feature_conflict:
  assumes "get_entity db pid = Some (Inr project)"
    and "rows_named db (e_qualified_name project @ ''__'' @ dfd_name defn) = [row]"
    and "entity_type row \<noteq> DerivedFeature
         \<or> entity_type row = DerivedFeature
           \<and> attributes row = DerivedFeatureAttributes n t tr k ins
           \<and> (n \<noteq> dfd_name defn \<or> t \<noteq> dfd_feature_type defn
              \<or> tr \<noteq> dfd_transformation defn \<or> k \<noteq> dfd_key defn)"
  shows "create_project_derived_feature self db pid defn g = Some (Inl ConflictError, db)"
proof -
  have "derived_feature_block self pid defn g
          (e_qualified_name project @ ''__'' @ dfd_name defn) (make_handle self) db
        = (Inl ConflictError, db)"
    using assms(2,3) by (auto simp: derived_feature_block_def derived_feature_found_def)
  then show ?thesis
    by (simp add: create_project_derived_feature_def assms(1) transaction_raise_unchanged)
qed

text \<open>
  C3 (as stated, fails). The anchor \<open>p1__a1\<close> is stored with the source \<open>p1__s1\<close>.
  Creating an anchor of the same name over the other source \<open>p1__s2\<close> (id 210) does not
  fail with Conflict: the stored attributes differ from the requested ones in the
  source, but only the name is compared, so the call returns the existing id 300.
\<close>

theorem create_project_anchor_other_source:
  "create_project_anchor (SQLAlchemyConnection no_text) store_two_sources (UUID 100)
     (def_a1 (UUID 210)) (uuids_from 400)
   = Some (Inr (UUID 300), store_two_sources)
   \<and> rows_named store_two_sources ''p1__a1'' = [anchor_a1 (UUID 300)]
   \<and> attributes (anchor_a1 (UUID 300))
       \<noteq> AnchorAttributes ''a1''
           \<lparr>ref_id = UUID 210, ref_type = Source, ref_qualified_name = ''p1__s2''\<rparr>"
  by code_simp

text \<open>
  C3 (amended). For each creation operation: if exactly one entity is stored under the
  computed qualified name and it has a different entity type, or the same type and a
  different value in one of the fields the operation compares (source: name, type,
  options, preprocessing, event timestamp column, timestamp format; anchor: name;
  anchor feature and derived feature: name, type, transformation, key; project: no
  field), the operation fails with Conflict and the store is unchanged.
\<close>

theorem conflicting_creation:
  "(rows_named db (pd_name pdef) = [row] \<and> entity_type row \<noteq> Project
      \<longrightarrow> create_project self db pdef g = (Inl ConflictError, db))
   \<and> (get_entity db pid = Some (Inr project)
      \<and> rows_named db (e_qualified_name project @ ''__'' @ sd_name sdef) = [row]
      \<and> (entity_type row \<noteq> Source
         \<or> entity_type row = Source \<and> attributes row = SourceAttributes n t opt pre ets tf
           \<and> (n \<noteq> sd_name sdef \<or> t \<noteq> sd_type sdef \<or> opt \<noteq> sd_options sdef
              \<or> pre \<noteq> sd_preprocessing sdef \<or> ets \<noteq> sd_event_timestamp_column sdef
              \<or> tf \<noteq> sd_timestamp_format sdef))
      \<longrightarrow> create_project_datasource self db pid sdef g = Some (Inl ConflictError, db))
   \<and> (get_entity db pid = Some (Inr project)
      \<and> rows_named db (e_qualified_name project @ ''__'' @ ad_name adef) = [row]
      \<and> (entity_type row \<noteq> Anchor
         \<or> entity_type row = Anchor \<and> attributes row = AnchorAttributes n src
           \<and> n \<noteq> ad_name adef)
      \<longrightarrow> create_project_anchor self db pid adef g = Some (Inl ConflictError, db))
   \<and> (get_entity db aid = Some (Inr anchor)
      \<and> rows_named db (e_qualified_name anchor @ ''__'' @ afd_name fdef) = [row]
      \<and> (entity_type row \<noteq> AnchorFeature
         \<or> entity_type row = AnchorFeature \<and> attributes row = AnchorFeatureAttributes n t tr k
           \<and> (n \<noteq> afd_name fdef \<or> t \<noteq> afd_feature_type fdef
              \<or> tr \<noteq> afd_transformation fdef \<or> k \<noteq> afd_key fdef))
      \<longrightarrow> create_project_anchor_feature self db pid aid fdef g = Some (Inl ConflictError, db))
   \<and> (get_entity db pid = Some (Inr project)
      \<and> rows_named db (e_qualified_name project @ ''__'' @ dfd_name ddef) = [row]
      \<and> (entity_type row \<noteq> DerivedFeature
         \<or> entity_type row = DerivedFeature
           \<and> attributes row = DerivedFeatureAttributes n t tr k ins
           \<and> (n \<noteq> dfd_name ddef \<or> t \<noteq> dfd_feature_type ddef
              \<or> tr \<noteq> dfd_transformation ddef \<or> k \<noteq> dfd_key ddef))
      \<longrightarrow> create_project_derived_feature self db pid ddef g = Some (Inl ConflictError, db))"
proof (intro conjI impI)
  assume "rows_named db (pd_name pdef) = [row] \<and> entity_type row \<noteq> Project"
  then show "create_project self db pdef g = (Inl ConflictError, db)"
    by (simp add: create_project_conflict)
next
  assume a: "get_entity db pid = Some (Inr project)
      \<and> rows_named db (e_qualified_name project @ ''__'' @ sd_name sdef) = [row]
      \<and> (entity_type row \<noteq> Source
         \<or> entity_type row = Source \<and> attributes row = SourceAttributes n t opt pre ets tf
           \<and> (n \<noteq> sd_name sdef \<or> t \<noteq> sd_type sdef \<or> opt \<noteq> sd_options sdef
              \<or> pre \<noteq> sd_preprocessing sdef \<or> ets \<noteq> sd_event_timestamp_column sdef
              \<or> tf \<noteq> sd_timestamp_format sdef))"
  show "create_project_datasource self db pid sdef g = Some (Inl ConflictError, db)"
    by (rule create_project_datasource_conflict [of db pid project sdef row n t opt pre ets tf])
       (use a in blast)+
next
  assume a: "get_entity db pid = Some (Inr project)
      \<and> rows_named db (e_qualified_name project @ ''__'' @ ad_name adef) = [row]
      \<and> (entity_type row \<noteq> Anchor
         \<or> entity_type row = Anchor \<and> attributes row = AnchorAttributes n src
           \<and> n \<noteq> ad_name adef)"
  show "create_project_anchor self db pid adef g = Some (Inl ConflictError, db)"
    by (rule create_project_anchor_conflict [of db pid project adef row n src])
       (use a in blast)+
next
  assume a: "get_entity db aid = Some (Inr anchor)
      \<and> rows_named db (e_qualified_name anchor @ ''__'' @ afd_name fdef) = [row]
      \<and> (entity_type row \<noteq> AnchorFeature
         \<or> entity_type row = AnchorFeature \<and> attributes row = AnchorFeatureAttributes n t tr k
           \<and> (n \<noteq> afd_name fdef \<or> t \<noteq> afd_feature_type fdef
              \<or> tr \<noteq> afd_transformation fdef \<or> k \<noteq> afd_key fdef))"
  show "create_project_anchor_feature self db pid aid fdef g = Some (Inl ConflictError, db)"
    by (rule create_project_anchor_feature_conflict [of db aid anchor fdef row n t tr k])
       (use a in blast)+
next
  assume a: "get_entity db pid = Some (Inr project)
      \<and> rows_named db (e_qualified_name project @ ''__'' @ dfd_name ddef) = [row]
      \<and> (entity_type row \<noteq> DerivedFeature
         \<or> entity_type row = DerivedFeature
           \<and> attributes row = DerivedFeatureAttributes n t tr k ins
           \<and> (n \<noteq> dfd_name ddef \<or> t \<noteq> dfd_feature_type ddef
              \<or> tr \<noteq> dfd_transformation ddef \<or> k \<noteq> dfd_key ddef))"
  show "create_project_derived_feature self db pid ddef g = Some (Inl ConflictError, db)"
    by (rule create_project_derived_feature_conflict [of db pid project ddef row n t tr k ins])
       (use a in blast)+
qed

theorem conflicting_creation_witness:
  "create_project (SQLAlchemyConnection no_text) store_taken \<lparr>pd_name = ''p1__s1''\<rparr>
     (uuids_from 900)
   = (Inl ConflictError, store_taken)
   \<and> create_project_datasource (SQLAlchemyConnection no_text) store_taken (UUID 100)
       (def_s1\<lparr>sd_name := ''a1''\<rparr>) (uuids_from 900)
     = Some (Inl ConflictError, store_taken)
   \<and> create_project_anchor (SQLAlchemyConnection no_text) store_taken (UUID 100)
       \<lparr>ad_name = ''s1'', ad_source_id = UUID 200\<rparr> (uuids_from 900)
     = Some (Inl ConflictError, store_taken)
   \<and> create_project_anchor_feature (SQLAlchemyConnection no_text) store_taken (UUID 100)
       (UUID 300) def_f1 (uuids_from 900)
     = Some (Inl ConflictError, store_taken)
   \<and> create_project_derived_feature (SQLAlchemyConnection no_text) store_taken (UUID 100)
       (def_d1\<lparr>dfd_name := ''s1''\<rparr>) (uuids_from 900)
     = Some (Inl ConflictError, store_taken)"
proof -
  have p: "get_entity store_taken (UUID 100) = Some (Inr entity_p1)"
    by code_simp
  have a: "get_entity store_taken (UUID 300) = Some (Inr (entity_a1 (Some entity_s1)))"
    by code_simp
  have h1: "rows_named store_taken (pd_name \<lparr>pd_name = ''p1__s1''\<rparr>) = [source_s1]
            \<and> entity_type source_s1 \<noteq> Project"
    by code_simp
  have h2: "rows_named store_taken
              (e_qualified_name entity_p1 @ ''__'' @ sd_name (def_s1\<lparr>sd_name := ''a1''\<rparr>))
            = [anchor_a1 (UUID 300)]
            \<and> entity_type (anchor_a1 (UUID 300)) \<noteq> Source"
    by code_simp
  have h3: "rows_named store_taken
              (e_qualified_name entity_p1 @ ''__''
                 @ ad_name \<lparr>ad_name = ''s1'', ad_source_id = UUID 200\<rparr>)
            = [source_s1]
            \<and> entity_type source_s1 \<noteq> Anchor"
    by code_simp
  have h4: "rows_named store_taken
              (e_qualified_name (entity_a1 (Some entity_s1)) @ ''__'' @ afd_name def_f1)
            = [source_a1_f1]
            \<and> entity_type source_a1_f1 \<noteq> AnchorFeature"
    by code_simp
  have h5: "rows_named store_taken
              (e_qualified_name entity_p1 @ ''__'' @ dfd_name (def_d1\<lparr>dfd_name := ''s1''\<rparr>))
            = [source_s1]
            \<and> entity_type source_s1 \<noteq> DerivedFeature"
    by code_simp
  have c1: "create_project (SQLAlchemyConnection no_text) store_taken \<lparr>pd_name = ''p1__s1''\<rparr>
              (uuids_from 900) = (Inl ConflictError, store_taken)"
    using h1 conflicting_creation
      [where db = store_taken and row = source_s1 and pdef = "\<lparr>pd_name = ''p1__s1''\<rparr>"
         and self = "SQLAlchemyConnection no_text" and g = "uuids_from 900"]
    by blast
  have c2: "create_project_datasource (SQLAlchemyConnection no_text) store_taken (UUID 100)
              (def_s1\<lparr>sd_name := ''a1''\<rparr>) (uuids_from 900)
            = Some (Inl ConflictError, store_taken)"
    using p h2 conflicting_creation
      [where db = store_taken and row = "anchor_a1 (UUID 300)" and pid = "UUID 100"
         and project = entity_p1 and sdef = "def_s1\<lparr>sd_name := ''a1''\<rparr>"
         and self = "SQLAlchemyConnection no_text" and g = "uuids_from 900"]
    by blast
  have c3: "create_project_anchor (SQLAlchemyConnection no_text) store_taken (UUID 100)
              \<lparr>ad_name = ''s1'', ad_source_id = UUID 200\<rparr> (uuids_from 900)
            = Some (Inl ConflictError, store_taken)"
    using p h3 conflicting_creation
      [where db = store_taken and row = source_s1 and pid = "UUID 100"
         and project = entity_p1 and adef = "\<lparr>ad_name = ''s1'', ad_source_id = UUID 200\<rparr>"
         and self = "SQLAlchemyConnection no_text" and g = "uuids_from 900"]
    by blast
  have c4: "create_project_anchor_feature (SQLAlchemyConnection no_text) store_taken (UUID 100)
              (UUID 300) def_f1 (uuids_from 900)
            = Some (Inl ConflictError, store_taken)"
    using a h4 conflicting_creation
      [where db = store_taken and row = source_a1_f1 and pid = "UUID 100" and aid = "UUID 300"
         and anchor = "entity_a1 (Some entity_s1)" and fdef = def_f1
         and self = "SQLAlchemyConnection no_text" and g = "uuids_from 900"]
    by blast
  have c5: "create_project_derived_feature (SQLAlchemyConnection no_text) store_taken (UUID 100)
              (def_d1\<lparr>dfd_name := ''s1''\<rparr>) (uuids_from 900)
            = Some (Inl ConflictError, store_taken)"
    using p h5 conflicting_creation
      [where db = store_taken and row = source_s1 and pid = "UUID 100"
         and project = entity_p1 and ddef = "def_d1\<lparr>dfd_name := ''s1''\<rparr>"
         and self = "SQLAlchemyConnection no_text" and g = "uuids_from 900"]
    by blast
  from c1 c2 c3 c4 c5 show ?thesis by blast
qed

section \<open>Edge creation\<close>

text \<open>
  C5 (fails in SQLAlchemy mode). Creating the edge (1, 2, Contains) twice on the empty
  store in SQLAlchemy mode stores two rows with that triple: the second insert is not
  a no-op.
\<close>

theorem u_create_edge_twice_orm:
  "edges_with
     (snd (u_create_edge (SQLAlchemyConnection t) Session (UUID 11) (UUID 1) (UUID 2) Contains
        (snd (u_create_edge (SQLAlchemyConnection t) Session (UUID 10) (UUID 1) (UUID 2) Contains
           empty_database))))
     (UUID 1) (UUID 2) Contains
   = [\<lparr>edge_id = UUID 10, from_id = UUID 1, to_id = UUID 2, conn_type = Contains\<rparr>,
      \<lparr>edge_id = UUID 11, from_id = UUID 1, to_id = UUID 2, conn_type = Contains\<rparr>]"
  by (simp add: u_create_edge_def insert_edge_def edges_with_def empty_database_def)

text \<open>The raw-SQL branch is idempotent: a second call with the same triple changes nothing.\<close>

lemma u_create_edge_twice_raw:
  assumes "u_create_edge (MssqlConnection ac) c u f t ty db = (Inr v, db')"
  shows "u_create_edge (MssqlConnection ac) c u' f t ty db' = (Inr (), db')"
  using assms
  by (auto simp: u_create_edge_def insert_edge_def edge_exists_def split: if_splits)

section \<open>Deletion\<close>

text \<open>
  C6 (fails in SQLAlchemy mode). Deleting the source \<open>p1__s1\<close> in SQLAlchemy mode
  removes its row and returns, but the two edges that have the source as \<open>to_id\<close> and
  as \<open>from_id\<close> stay in the edge table: the mis-parenthesised criterion selects no row.
\<close>

theorem delete_entity_orm_keeps_edges:
  "delete_entity (SQLAlchemyConnection t) store_p1_s1 (UUID 200)
   = (Inr (),
      \<lparr>entities = [project_p1],
       edges =
         [\<lparr>edge_id = UUID 201, from_id = UUID 100, to_id = UUID 200, conn_type = Contains\<rparr>,
          \<lparr>edge_id = UUID 202, from_id = UUID 200, to_id = UUID 100, conn_type = BelongsTo\<rparr>]\<rparr>)"
  by (simp add: delete_entity_def transaction_def then_do_def u_delete_all_entity_edges_def
      u_delete_entity_def orm_edges_criterion_def sql_or_def store_p1_s1_def project_p1_def
      source_s1_def edges_s1_def)

text \<open>
  The raw-SQL branch does what the claim says: after \<open>delete_entity\<close> no edge has the
  entity's id as \<open>from_id\<close> or \<open>to_id\<close>, and no row has it as \<open>entity_id\<close>.
\<close>

lemma delete_entity_raw:
  assumes "get_entity_id db x = Inr i"
  shows "delete_entity (MssqlConnection ac) db x
         = (Inr (),
            \<lparr>entities = filter (\<lambda>r. entity_id r \<noteq> i) (entities db),
             edges = filter (\<lambda>e. \<not> (from_id e = i \<or> to_id e = i)) (edges db)\<rparr>)"
  using assms
  by (simp add: delete_entity_def transaction_def then_do_def u_delete_all_entity_edges_def
      u_delete_entity_def)

section \<open>Traversal\<close>

subsection \<open>The ids of the entities that are read\<close>

lemma new_Entities_ids: "new_Entities rows = Inr es \<Longrightarrow> map e_id es = map entity_id rows"
  by (induction rows arbitrary: es) (auto simp: new_Entity_def split: sum.splits if_splits)

lemma u_get_entities_ids:
  assumes "u_get_entities db ids = Inr es"
  shows "e_id ` set es = set ids \<inter> entity_id ` set (entities db)"
proof (cases "ids = []")
  case True
  with assms show ?thesis by (simp add: u_get_entities_def)
next
  case False
  with assms have "map e_id es = map entity_id (filter (\<lambda>r. entity_id r \<in> set ids) (entities db))"
    by (simp add: u_get_entities_def new_Entities_ids)
  then have "set (map e_id es)
             = set (map entity_id (filter (\<lambda>r. entity_id r \<in> set ids) (entities db)))"
    by simp
  then show ?thesis by auto
qed

lemma u_fill_entity_id: "u_fill_entity db e = Some (Inr e') \<Longrightarrow> e_id e' = e_id e"
  unfolding u_fill_entity_def
  by (auto simp: fill_children_def fill_features_def fill_input_features_def set_source_def
      split: if_splits sum.splits list.splits option.splits)

lemma fill_entities_ids: "fill_entities db es = Some (Inr es') \<Longrightarrow> map e_id es' = map e_id es"
proof (induction es arbitrary: es')
  case Nil
  then show ?case by simp
next
  case (Cons e es)
  then show ?case
    by (auto split: option.splits sum.splits dest: u_fill_entity_id)
qed

lemma get_entities_ids:
  assumes "get_entities db ids = Some (Inr es)"
  shows "e_id ` set es = set ids \<inter> entity_id ` set (entities db)"
proof -
  from assms obtain es0 where a: "u_get_entities db ids = Inr es0"
    and b: "fill_entities db es0 = Some (Inr es)"
    by (auto simp: get_entities_def split: sum.splits)
  from fill_entities_ids [OF b] have "set (map e_id es) = set (map e_id es0)" by simp
  then have "e_id ` set es = e_id ` set es0" by simp
  with u_get_entities_ids [OF a] show ?thesis by simp
qed

subsection \<open>Reading an entity returns when no anchor is consumed\<close>

lemma get_entity_no_anchor:
  assumes "case u_get_entity db x of Inl err \<Rightarrow> True | Inr e \<Rightarrow> e_entity_type e \<noteq> Anchor"
  shows "\<exists>r. get_entity db x = Some r"
  using assms by (subst get_entity.simps) (auto split: sum.splits)

lemma neighbors_in_edges:
  assumes "get_neighbors db x ty = Inr ns" and "n \<in> set ns"
  shows "n \<in> set (edges db) \<and> conn_type n = ty"
  using assms by (auto simp: get_neighbors_def split: sum.splits)

lemma get_entity_returns:
  assumes "no_anchor_consumed db"
  shows "\<exists>r. get_entity db x = Some r"
proof (cases "case u_get_entity db x of Inl err \<Rightarrow> True | Inr e \<Rightarrow> e_entity_type e \<noteq> Anchor")
  case True
  then show ?thesis by (rule get_entity_no_anchor)
next
  case False
  then obtain e where e: "u_get_entity db x = Inr e" "e_entity_type e = Anchor"
    by (auto split: sum.splits)
  show ?thesis
  proof (cases "fill_features db e")
    case (Inl err)
    with e show ?thesis by (subst get_entity.simps) simp
  next
    case (Inr e')
    show ?thesis
    proof (cases "get_neighbors db (e_id e') Consumes")
      case (Inl err)
      with e Inr show ?thesis by (subst get_entity.simps) simp
    next
      case ns: (Inr ns)
      show ?thesis
      proof (cases ns)
        case Nil
        with e Inr ns show ?thesis by (subst get_entity.simps) simp
      next
        case (Cons n rest)
        with ns have "n \<in> set (edges db) \<and> conn_type n = Consumes"
          by (intro neighbors_in_edges [of db "e_id e'" Consumes ns]) simp_all
        with assms have
          "case u_get_entity db (to_id n) of Inl err \<Rightarrow> True | Inr e \<Rightarrow> e_entity_type e \<noteq> Anchor"
          by (auto simp: no_anchor_consumed_def list_all_iff)
        from get_entity_no_anchor [OF this] obtain r where "get_entity db (to_id n) = Some r" ..
        with e Inr ns Cons show ?thesis
          by (subst get_entity.simps) (simp split: sum.splits)
      qed
    qed
  qed
qed

lemma get_entity_fill:
  "get_entity db x
   = (case u_get_entity db x of Inl err \<Rightarrow> Some (Inl err) | Inr e \<Rightarrow> u_fill_entity db e)"
  by (subst get_entity.simps)
     (auto simp: u_fill_entity_def Option.bind_def split: sum.splits list.splits option.splits)

lemma u_fill_entity_returns:
  assumes "no_anchor_consumed db"
  shows "\<exists>r. u_fill_entity db e = Some r"
proof (cases "e_entity_type e = Anchor")
  case False
  then show ?thesis by (simp add: u_fill_entity_def)
next
  case True
  show ?thesis
  proof (cases "fill_features db e")
    case (Inl err)
    with True show ?thesis by (simp add: u_fill_entity_def)
  next
    case (Inr e')
    show ?thesis
    proof (cases "get_neighbors db (e_id e') Consumes")
      case (Inl err)
      with True Inr show ?thesis by (simp add: u_fill_entity_def)
    next
      case ns: (Inr ns)
      show ?thesis
      proof (cases ns)
        case Nil
        with True Inr ns show ?thesis by (simp add: u_fill_entity_def)
      next
        case (Cons n rest)
        from get_entity_returns [OF assms] obtain r where "get_entity db (to_id n) = Some r" ..
        with True Inr ns Cons show ?thesis
          by (simp add: u_fill_entity_def split: sum.splits)
      qed
    qed
  qed
qed

lemma fill_entities_returns:
  assumes "no_anchor_consumed db"
  shows "\<exists>r. fill_entities db es = Some r"
proof (induction es)
  case Nil
  then show ?case by simp
next
  case (Cons e es)
  from u_fill_entity_returns [OF assms] obtain r where "u_fill_entity db e = Some r" ..
  with Cons show ?case by (auto split: sum.splits)
qed

lemma get_entities_returns:
  assumes "no_anchor_consumed db"
  shows "\<exists>r. get_entities db ids = Some r"
  using fill_entities_returns [OF assms] by (auto simp: get_entities_def split: sum.splits)

subsection \<open>The loop on a chain\<close>

lemma bfs_loop_chain:
  assumes "is_chain db R A B C D"
  shows "bfs_loop db R [A] []
         = Some (u_bfs_step db [A] R @ u_bfs_step db [B] R @ u_bfs_step db [C] R)"
proof -
  from assms have s1: "map to_id (u_bfs_step db [A] R) = [B]"
    and s2: "map to_id (u_bfs_step db [B] R) = [C]"
    and s3: "map to_id (u_bfs_step db [C] R) = [D]"
    and s4: "u_bfs_step db [D] R = []"
    by (simp_all add: is_chain_def)
  have "bfs_loop db R [A] [] = bfs_loop db R [B] (u_bfs_step db [A] R)"
    by (subst bfs_loop.simps) (simp add: s1)
  also have "\<dots> = bfs_loop db R [C] (u_bfs_step db [A] R @ u_bfs_step db [B] R)"
    by (subst bfs_loop.simps) (simp add: s2)
  also have "\<dots> = bfs_loop db R [D]
                     (u_bfs_step db [A] R @ u_bfs_step db [B] R @ u_bfs_step db [C] R)"
    by (subst bfs_loop.simps) (simp add: s3)
  also have "\<dots> = bfs_loop db R []
                     (u_bfs_step db [A] R @ u_bfs_step db [B] R @ u_bfs_step db [C] R)"
    by (subst bfs_loop.simps) (simp add: s4)
  also have "\<dots> = Some (u_bfs_step db [A] R @ u_bfs_step db [B] R @ u_bfs_step db [C] R)"
    by (subst bfs_loop.simps) simp
  finally show ?thesis .
qed

lemma u_bfs_step_from: "from_id ` set (u_bfs_step db ids R) \<subseteq> set ids"
  by (auto simp: u_bfs_step_def)

lemma chain_ids:
  assumes "is_chain db R A B C D"
  shows "set (A # concat (map (\<lambda>r. [from_id r, to_id r])
                 (u_bfs_step db [A] R @ u_bfs_step db [B] R @ u_bfs_step db [C] R)))
         = {A, B, C, D}"
proof -
  from assms have s1: "map to_id (u_bfs_step db [A] R) = [B]"
    and s2: "map to_id (u_bfs_step db [B] R) = [C]"
    and s3: "map to_id (u_bfs_step db [C] R) = [D]"
    by (simp_all add: is_chain_def)
  from s1 obtain e1 where e1: "u_bfs_step db [A] R = [e1]" "to_id e1 = B" by auto
  from s2 obtain e2 where e2: "u_bfs_step db [B] R = [e2]" "to_id e2 = C" by auto
  from s3 obtain e3 where e3: "u_bfs_step db [C] R = [e3]" "to_id e3 = D" by auto
  from u_bfs_step_from [of db "[A]" R] e1 have f1: "from_id e1 = A" by simp
  from u_bfs_step_from [of db "[B]" R] e2 have f2: "from_id e2 = B" by simp
  from u_bfs_step_from [of db "[C]" R] e3 have f3: "from_id e3 = C" by simp
  show ?thesis by (auto simp: e1 e2 e3 f1 f2 f3)
qed

lemma chain_start_not_later:
  assumes "is_chain db R A B C D"
  shows "A \<notin> {B, C, D}"
proof -
  from assms have s1: "map to_id (u_bfs_step db [A] R) = [B]"
    and s2: "map to_id (u_bfs_step db [B] R) = [C]"
    and s3: "map to_id (u_bfs_step db [C] R) = [D]"
    and s4: "u_bfs_step db [D] R = []"
    by (simp_all add: is_chain_def)
  have "A \<noteq> D" using s1 s4 by auto
  moreover have "A \<noteq> C"
  proof
    assume "A = C"
    with s1 s3 have "B = D" by simp
    with s2 s4 show False by simp
  qed
  moreover have "A \<noteq> B"
  proof
    assume "A = B"
    with s1 s2 have "B = C" by simp
    with \<open>A = B\<close> \<open>A \<noteq> C\<close> show False by simp
  qed
  ultimately show ?thesis by simp
qed

subsection \<open>Dependent entities\<close>

lemma get_dependent_entities_excludes_start:
  assumes "get_entity_id db a = Inr A" and "get_dependent_entities db a = Some (Inr result)"
  shows "A \<notin> e_id ` set result"
  using assms
  by (auto simp: get_dependent_entities_def split: option.splits sum.splits)

section \<open>Reading a store\<close>

lemma edge_exists_iff:
  "edge_exists db f t ty
   \<longleftrightarrow> (\<exists>e \<in> set (edges db). from_id e = f \<and> to_id e = t \<and> conn_type e = ty)"
  by (auto simp: edge_exists_def filter_empty_conv)

lemma readable_iff:
  "readable db
   \<longleftrightarrow> distinct (map entity_id (entities db))
       \<and> (\<forall>r \<in> set (entities db). type_of_attributes (attributes r) = entity_type r)
       \<and> (\<forall>n \<in> set (edges db).
             conn_type n = Consumes
             \<and> (\<exists>a \<in> set (entities db). entity_id a = from_id n \<and> entity_type a = Anchor)
             \<longrightarrow> is_uuid (to_id n)
                 \<and> (\<exists>r \<in> set (entities db). entity_id r = to_id n \<and> entity_type r \<noteq> Anchor))"
  by (simp add: readable_def list_all_iff)

lemma sourced_iff:
  "sourced db i
   \<longleftrightarrow> (\<forall>r \<in> set (entities db). entity_id r = i \<and> entity_type r = Anchor
          \<longrightarrow> u_bfs_step db [i] Consumes \<noteq> [])"
  by (simp add: sourced_def list_all_iff)

lemma distinct_filter_id:
  assumes "distinct (map entity_id rows)" and "r \<in> set rows"
  shows "filter (\<lambda>r'. entity_id r' = entity_id r) rows = [r]"
  using assms by (induction rows) (auto simp: filter_empty_conv image_iff)

lemma readable_same_row:
  assumes "readable db" and "r \<in> set (entities db)" and "r' \<in> set (entities db)"
    and "entity_id r' = entity_id r"
  shows "r' = r"
proof -
  from assms(1) have "inj_on entity_id (set (entities db))"
    by (simp add: readable_iff distinct_map)
  with assms(2-4) show ?thesis by (auto dest: inj_onD)
qed

lemma readable_row:
  assumes "readable db" and "r \<in> set (entities db)" and "is_uuid (entity_id r)"
  shows "u_get_entity db (entity_id r)
         = Inr (Entity (entity_id r) (qualified_name r) (entity_type r) (attributes r)
                  [] [] None [])"
proof -
  from assms(3) obtain u where u: "entity_id r = UUID u" by (cases "entity_id r") simp_all
  from assms(1,2) have "filter (\<lambda>r'. entity_id r' = entity_id r) (entities db) = [r]"
    by (intro distinct_filter_id) (simp_all add: readable_iff)
  moreover from assms(1,2) have "type_of_attributes (attributes r) = entity_type r"
    by (simp add: readable_iff)
  ultimately show ?thesis
    using u by (simp add: u_get_entity_def new_Entity_def)
qed

lemma new_Entities_ok:
  assumes "\<forall>r \<in> set rows. type_of_attributes (attributes r) = entity_type r"
  shows "\<exists>es. new_Entities rows = Inr es"
  using assms by (induction rows) (auto simp: new_Entity_def)

lemma new_Entities_rows:
  assumes "new_Entities rows = Inr es" and "e \<in> set es"
  shows "\<exists>r \<in> set rows. e_id e = entity_id r \<and> e_entity_type e = entity_type r"
  using assms
  by (induction rows arbitrary: es)
     (auto simp: new_Entity_def split: sum.splits if_splits)

lemma u_get_entities_readable:
  assumes "readable db"
  shows "\<exists>es. u_get_entities db ids = Inr es"
proof -
  from assms have
    "\<forall>r \<in> set (filter (\<lambda>r. entity_id r \<in> set ids) (entities db)).
       type_of_attributes (attributes r) = entity_type r"
    by (simp add: readable_iff)
  from new_Entities_ok [OF this] show ?thesis by (simp add: u_get_entities_def)
qed

lemma u_get_entities_rows:
  assumes "u_get_entities db ids = Inr es"
  shows "map e_id es = map entity_id (filter (\<lambda>r. entity_id r \<in> set ids) (entities db))"
proof (cases "ids = []")
  case True
  with assms show ?thesis by (simp add: u_get_entities_def)
next
  case False
  with assms show ?thesis by (simp add: u_get_entities_def new_Entities_ids)
qed

lemma get_neighbors_uuid: "get_neighbors db (UUID u) ct = Inr (u_bfs_step db [UUID u] ct)"
proof -
  have "filter (\<lambda>e. from_id e = UUID u \<and> conn_type e = ct) (edges db)
        = filter (\<lambda>e. conn_type e = ct \<and> from_id e \<in> set [UUID u]) (edges db)"
    by (rule filter_cong) auto
  then show ?thesis by (simp add: get_neighbors_def u_bfs_step_def)
qed

lemma get_neighbors_ok:
  assumes "is_uuid i"
  shows "get_neighbors db i ct = Inr (u_bfs_step db [i] ct)"
  using assms get_neighbors_uuid by (cases i) simp_all

lemma fill_children_readable:
  assumes "readable db" and "is_uuid (e_id e)"
  shows "\<exists>e'. fill_children db e = Inr e' \<and> e_entity_type e' = e_entity_type e"
  using u_get_entities_readable [OF assms(1), of "map to_id (u_bfs_step db [e_id e] Contains)"]
  by (auto simp: fill_children_def get_neighbors_ok [OF assms(2)])

lemma fill_features_readable:
  assumes "readable db" and "is_uuid (e_id e)"
  shows "\<exists>e'. fill_features db e = Inr e' \<and> e_id e' = e_id e
           \<and> e_entity_type e' = e_entity_type e"
  using u_get_entities_readable [OF assms(1), of "map to_id (u_bfs_step db [e_id e] Contains)"]
  by (auto simp: fill_features_def get_neighbors_ok [OF assms(2)])

lemma fill_input_features_readable:
  assumes "readable db" and "is_uuid (e_id e)"
  shows "\<exists>e'. fill_input_features db e = Inr e' \<and> e_entity_type e' = e_entity_type e"
  using u_get_entities_readable [OF assms(1), of "map to_id (u_bfs_step db [e_id e] Consumes)"]
  by (auto simp: fill_input_features_def get_neighbors_ok [OF assms(2)])

lemma get_entity_plain:
  assumes "readable db" and "r \<in> set (entities db)" and "is_uuid (entity_id r)"
    and "entity_type r \<noteq> Anchor"
  shows "\<exists>e. get_entity db (entity_id r) = Some (Inr e) \<and> e_id e = entity_id r
           \<and> e_entity_type e = entity_type r"
proof -
  let ?e = "Entity (entity_id r) (qualified_name r) (entity_type r) (attributes r)
              [] [] None []"
  from readable_row [OF assms(1-3)] have e: "u_get_entity db (entity_id r) = Inr ?e" .
  from assms(3) have uuid: "is_uuid (e_id ?e)" by simp
  have "\<exists>e'. u_fill_entity db ?e = Some (Inr e') \<and> e_entity_type e' = entity_type r"
    using fill_children_readable [OF assms(1) uuid]
      fill_input_features_readable [OF assms(1) uuid] assms(4)
    by (auto simp: u_fill_entity_def)
  then obtain e' where e': "u_fill_entity db ?e = Some (Inr e')"
    "e_entity_type e' = entity_type r"
    by auto
  from u_fill_entity_id [OF e'(1)] have "e_id e' = entity_id r" by simp
  with e e' show ?thesis by (simp add: get_entity_fill)
qed

lemma u_fill_entity_readable:
  assumes "readable db" and "is_uuid (e_id e)"
    and "e_entity_type e = Anchor
         \<longrightarrow> (\<exists>a \<in> set (entities db). entity_id a = e_id e \<and> entity_type a = Anchor)
             \<and> u_bfs_step db [e_id e] Consumes \<noteq> []"
  shows "\<exists>e'. u_fill_entity db e = Some (Inr e') \<and> e_entity_type e' = e_entity_type e"
proof (cases "e_entity_type e = Anchor")
  case False
  then show ?thesis
    using fill_children_readable [OF assms(1,2)] fill_input_features_readable [OF assms(1,2)]
    by (auto simp: u_fill_entity_def)
next
  case True
  from fill_features_readable [OF assms(1,2)] obtain e' where
    e': "fill_features db e = Inr e'" "e_id e' = e_id e" "e_entity_type e' = e_entity_type e"
    by auto
  from True assms(3) obtain a where a: "a \<in> set (entities db)" "entity_id a = e_id e"
    "entity_type a = Anchor"
    by auto
  from True assms(3) obtain n ns where ns: "u_bfs_step db [e_id e] Consumes = n # ns"
    by (cases "u_bfs_step db [e_id e] Consumes") auto
  then have "n \<in> set (u_bfs_step db [e_id e] Consumes)" by simp
  then have n: "n \<in> set (edges db)" "conn_type n = Consumes" "from_id n = e_id e"
    by (auto simp: u_bfs_step_def)
  with assms(1) a obtain r where r: "r \<in> set (entities db)" "entity_id r = to_id n"
    "entity_type r \<noteq> Anchor" "is_uuid (to_id n)"
    unfolding readable_iff by metis
  from get_entity_plain [OF assms(1) r(1)] r obtain src where
    "get_entity db (to_id n) = Some (Inr src)"
    by auto
  with True e' ns show ?thesis
    by (simp add: u_fill_entity_def get_neighbors_ok [OF assms(2)] set_source_def)
qed

lemma fill_entities_readable:
  assumes "readable db"
    and "\<forall>e \<in> set es. is_uuid (e_id e)
           \<and> (e_entity_type e = Anchor
              \<longrightarrow> (\<exists>a \<in> set (entities db). entity_id a = e_id e \<and> entity_type a = Anchor)
                  \<and> u_bfs_step db [e_id e] Consumes \<noteq> [])"
  shows "\<exists>es'. fill_entities db es = Some (Inr es')"
  using assms(2)
proof (induction es)
  case Nil
  then show ?case by simp
next
  case (Cons e es)
  then obtain e' where "u_fill_entity db e = Some (Inr e')"
    using u_fill_entity_readable [OF assms(1), of e] by auto
  moreover from Cons obtain es' where "fill_entities db es = Some (Inr es')" by auto
  ultimately show ?case by simp
qed

lemma get_entities_readable:
  assumes "readable db"
    and ids: "\<forall>r \<in> set (entities db). entity_id r \<in> set ids
                \<longrightarrow> is_uuid (entity_id r) \<and> sourced db (entity_id r)"
  shows "\<exists>es. get_entities db ids = Some (Inr es)
           \<and> map e_id es = map entity_id (filter (\<lambda>r. entity_id r \<in> set ids) (entities db))"
proof -
  from u_get_entities_readable [OF assms(1)] obtain es0 where
    es0: "u_get_entities db ids = Inr es0" ..
  have "is_uuid (e_id e)
        \<and> (e_entity_type e = Anchor
           \<longrightarrow> (\<exists>a \<in> set (entities db). entity_id a = e_id e \<and> entity_type a = Anchor)
               \<and> u_bfs_step db [e_id e] Consumes \<noteq> [])"
    if "e \<in> set es0" for e
  proof -
    from es0 that have "ids \<noteq> []" by (auto simp: u_get_entities_def)
    with es0 have "new_Entities (filter (\<lambda>r. entity_id r \<in> set ids) (entities db)) = Inr es0"
      by (simp add: u_get_entities_def)
    from new_Entities_rows [OF this that] obtain r where r: "r \<in> set (entities db)"
      "entity_id r \<in> set ids" "e_id e = entity_id r" "e_entity_type e = entity_type r"
      by auto
    with ids have "is_uuid (entity_id r)" "sourced db (entity_id r)" by auto
    with r show ?thesis by (auto simp: sourced_iff)
  qed
  then have "\<exists>es. fill_entities db es0 = Some (Inr es)"
    by (intro fill_entities_readable [OF assms(1)]) simp
  then obtain es where es: "fill_entities db es0 = Some (Inr es)" ..
  from fill_entities_ids [OF es] u_get_entities_rows [OF es0] es es0 show ?thesis
    by (simp add: get_entities_def)
qed

lemma get_entity_readable:
  assumes "readable db" and "r \<in> set (entities db)" and "is_uuid (entity_id r)"
    and "sourced db (entity_id r)"
  shows "\<exists>e. get_entity db (entity_id r) = Some (Inr e) \<and> e_entity_type e = entity_type r"
proof -
  let ?e = "Entity (entity_id r) (qualified_name r) (entity_type r) (attributes r)
              [] [] None []"
  from readable_row [OF assms(1-3)] have e: "u_get_entity db (entity_id r) = Inr ?e" .
  have "\<exists>e'. u_fill_entity db ?e = Some (Inr e') \<and> e_entity_type e' = e_entity_type ?e"
    using assms(2-4) by (intro u_fill_entity_readable [OF assms(1)]) (auto simp: sourced_iff)
  with e show ?thesis by (auto simp: get_entity_fill)
qed

subsection \<open>What the loop collects\<close>

lemma bfs_loop_collects:
  assumes "bfs_loop db ct ids acc = Some conns"
  shows "set acc \<subseteq> set conns
         \<and> set conns \<subseteq> set acc \<union> {e \<in> set (edges db). conn_type e = ct}"
  using assms
proof (induction db ct ids acc conns rule: bfs_loop.raw_induct [rotated 1, consumes 1])
  case (1 bfs_loop db ct to_ids connections y)
  show ?case
  proof (cases "to_ids = []")
    case True
    with 1(2) show ?thesis by simp
  next
    case False
    with 1(2) have
      "bfs_loop db ct (map to_id (u_bfs_step db to_ids ct))
         (connections @ u_bfs_step db to_ids ct) = Some y"
      by simp
    from 1(1) [OF this] show ?thesis
      by (auto simp: u_bfs_step_def)
  qed
qed

lemma bfs_loop_first_step:
  assumes "bfs_loop db ct [i] [] = Some conns"
  shows "set (u_bfs_step db [i] ct) \<subseteq> set conns"
proof -
  from assms have
    "bfs_loop db ct (map to_id (u_bfs_step db [i] ct)) (u_bfs_step db [i] ct) = Some conns"
    by (subst (asm) bfs_loop.simps) simp
  from bfs_loop_collects [OF this] show ?thesis by simp
qed

lemma bfs_loop_terminates:
  fixes m :: "ident \<Rightarrow> nat"
  assumes "\<forall>e \<in> set (edges db). conn_type e = ct \<longrightarrow> m (to_id e) < m (from_id e)"
  shows "\<exists>conns. bfs_loop db ct ids acc = Some conns"
proof (induction "if ids = [] then 0 else Suc (Max (m ` set ids))" arbitrary: ids acc
       rule: less_induct)
  case less
  show ?case
  proof (cases "ids = []")
    case True
    then show ?thesis by (subst bfs_loop.simps) simp
  next
    case False
    let ?step = "u_bfs_step db ids ct"
    let ?next = "map to_id ?step"
    have unfold: "bfs_loop db ct ids acc = bfs_loop db ct ?next (acc @ ?step)"
      by (subst bfs_loop.simps) (simp add: False)
    show ?thesis
    proof (cases "?next = []")
      case True
      then have "bfs_loop db ct ?next (acc @ ?step) = Some (acc @ ?step)"
        by (subst bfs_loop.simps) simp
      with unfold show ?thesis by simp
    next
      case next_ne: False
      have "m t < Max (m ` set ids)" if "t \<in> set ?next" for t
      proof -
        from that obtain e where e: "e \<in> set (edges db)" "conn_type e = ct"
          "from_id e \<in> set ids" "t = to_id e"
          by (auto simp: u_bfs_step_def)
        with assms have "m t < m (from_id e)" by simp
        also from e(3) have "m (from_id e) \<le> Max (m ` set ids)" by simp
        finally show ?thesis .
      qed
      then have "Max (m ` set ?next) < Max (m ` set ids)"
        using next_ne by (subst Max_less_iff) auto
      then have "(if ?next = [] then 0 else Suc (Max (m ` set ?next)))
                 < (if ids = [] then 0 else Suc (Max (m ` set ids)))"
        using False next_ne by simp
      from less [OF this] unfold show ?thesis by simp
    qed
  qed
qed

section \<open>Dependent entities on a chain\<close>

lemma get_dependent_entities_chain:
  assumes ok: "readable db"
    and a: "get_entity_id db a = Inr A"
    and r: "r \<in> set (entities db)" "entity_id r = A"
    and R: "entity_type r \<in> {Project, Anchor} \<and> R = Contains
            \<or> entity_type r \<in> {Source, AnchorFeature, DerivedFeature} \<and> R = Produces"
    and chain: "is_chain db R A B C D"
    and stored: "{B, C, D} \<subseteq> entity_id ` set (entities db)"
    and ids: "list_all (\<lambda>i. is_uuid i \<and> sourced db i) [A, B, C, D]"
  shows "\<exists>result. get_dependent_entities db a = Some (Inr result)
           \<and> e_id ` set result = {B, C, D} \<and> distinct (map e_id result)"
proof -
  let ?conns = "u_bfs_step db [A] R @ u_bfs_step db [B] R @ u_bfs_step db [C] R"
  let ?ids = "A # concat (map (\<lambda>r. [from_id r, to_id r]) ?conns)"
  from ids r(2) have "is_uuid (entity_id r)" "sourced db (entity_id r)" by simp_all
  from get_entity_readable [OF ok r(1) this] r(2) obtain entity where
    entity: "get_entity db A = Some (Inr entity)" "e_entity_type entity = entity_type r"
    by auto
  from R have rel: "dependent_relation (entity_type r) = R" by auto
  have loop: "bfs_loop db R [A] [] = Some ?conns"
    by (rule bfs_loop_chain [OF chain])
  have set_ids: "set ?ids = {A, B, C, D}"
    by (rule chain_ids [OF chain])
  with ids have "\<forall>r \<in> set (entities db). entity_id r \<in> set ?ids
                   \<longrightarrow> is_uuid (entity_id r) \<and> sourced db (entity_id r)"
    by auto
  from get_entities_readable [OF ok this] obtain es where
    es: "get_entities db ?ids = Some (Inr es)"
    "map e_id es = map entity_id (filter (\<lambda>r. entity_id r \<in> set ?ids) (entities db))"
    by blast
  have bfs: "u_bfs db A R = Some (Inr (es, ?conns))"
    unfolding u_bfs_def loop option.case es(1) by simp
  let ?result = "filter (\<lambda>e. e_id e \<noteq> A) es"
  have dep: "get_dependent_entities db a = Some (Inr ?result)"
    by (simp add: get_dependent_entities_def a entity rel bfs)
  from get_entities_ids [OF es(1)] set_ids r stored
  have "e_id ` set es = {A, B, C, D}" by auto
  moreover have "e_id ` set ?result = e_id ` set es - {A}" by auto
  ultimately have "e_id ` set ?result = {B, C, D}"
    using chain_start_not_later [OF chain] by auto
  moreover have "distinct (map e_id ?result)"
  proof -
    from ok have "distinct (map entity_id (entities db))" by (simp add: readable_iff)
    then have "distinct (map e_id es)"
      unfolding es(2) by (rule distinct_map_filter)
    then show ?thesis by (rule distinct_map_filter)
  qed
  ultimately show ?thesis using dep by blast
qed

text \<open>
  C7. On a store that can be read, let A be the UUID of a stored entity, let R be
  Contains when the entity is a project or an anchor and Produces when it is a source, an
  anchor feature or a derived feature, and let the R-edges form a chain
  A \<rightarrow> B \<rightarrow> C \<rightarrow> D of stored entities with UUIDs, no other R-edge leaving these
  nodes (an anchor among the four has its source). Then \<open>get_dependent_entities\<close> on A
  returns a list, not an exception, that holds exactly the entities B, C and D, each once.
  On every store, a result of \<open>get_dependent_entities\<close> never holds the start entity.
\<close>

theorem bfs_closure:
  "(readable db \<and> get_entity_id db a = Inr A \<and> r \<in> set (entities db) \<and> entity_id r = A
      \<and> (entity_type r \<in> {Project, Anchor} \<and> R = Contains
         \<or> entity_type r \<in> {Source, AnchorFeature, DerivedFeature} \<and> R = Produces)
      \<and> is_chain db R A B C D
      \<and> {B, C, D} \<subseteq> entity_id ` set (entities db)
      \<and> list_all (\<lambda>i. is_uuid i \<and> sourced db i) [A, B, C, D]
      \<longrightarrow> (\<exists>result. get_dependent_entities db a = Some (Inr result)
             \<and> e_id ` set result = {B, C, D} \<and> distinct (map e_id result)))
   \<and> (get_entity_id db' a' = Inr A' \<and> get_dependent_entities db' a' = Some (Inr result')
      \<longrightarrow> A' \<notin> e_id ` set result')"
  using get_dependent_entities_chain [of db a A r R B C D]
    get_dependent_entities_excludes_start [of db' a' A' result']
  by blast

theorem bfs_closure_witness:
  "(readable store_nested \<and> nested_project \<in> set (entities store_nested)
      \<and> entity_type nested_project = Project
      \<and> is_chain store_nested Contains (UUID 1) (UUID 6) (UUID 7) (UUID 8)
      \<and> (\<exists>result. get_dependent_entities store_nested (UUID 1) = Some (Inr result)
             \<and> e_id ` set result = {UUID 6, UUID 7, UUID 8} \<and> distinct (map e_id result)))
   \<and> (nested_anchor \<in> set (entities store_nested) \<and> entity_type nested_anchor = Anchor
      \<and> is_chain store_nested Contains (UUID 2) (UUID 3) (UUID 4) (UUID 5)
      \<and> (\<exists>result. get_dependent_entities store_nested (UUID 2) = Some (Inr result)
             \<and> e_id ` set result = {UUID 3, UUID 4, UUID 5} \<and> distinct (map e_id result)))
   \<and> (readable store_chain \<and> chain_feature 1 \<in> set (entities store_chain)
      \<and> entity_type (chain_feature 1) = AnchorFeature
      \<and> is_chain store_chain Produces (UUID 1) (UUID 2) (UUID 3) (UUID 4)
      \<and> get_dependent_entities store_chain (UUID 1) = Some (Inr chain_result)
      \<and> e_id ` set chain_result = {UUID 2, UUID 3, UUID 4}
      \<and> UUID 1 \<notin> e_id ` set chain_result)"
proof -
  have ok: "readable store_nested" "readable store_chain"
    by code_simp+
  have rows: "nested_project \<in> set (entities store_nested)"
    "entity_id nested_project = UUID 1" "entity_type nested_project = Project"
    "nested_anchor \<in> set (entities store_nested)"
    "entity_id nested_anchor = UUID 2" "entity_type nested_anchor = Anchor"
    "chain_feature 1 \<in> set (entities store_chain)"
    "entity_id (chain_feature 1) = UUID 1" "entity_type (chain_feature 1) = AnchorFeature"
    by code_simp+
  have chains: "is_chain store_nested Contains (UUID 1) (UUID 6) (UUID 7) (UUID 8)"
    "is_chain store_nested Contains (UUID 2) (UUID 3) (UUID 4) (UUID 5)"
    "is_chain store_chain Produces (UUID 1) (UUID 2) (UUID 3) (UUID 4)"
    by code_simp+
  have stored: "{UUID 6, UUID 7, UUID 8} \<subseteq> entity_id ` set (entities store_nested)"
    "{UUID 3, UUID 4, UUID 5} \<subseteq> entity_id ` set (entities store_nested)"
    "{UUID 2, UUID 3, UUID 4} \<subseteq> entity_id ` set (entities store_chain)"
    by code_simp+
  have ids: "list_all (\<lambda>i. is_uuid i \<and> sourced store_nested i) [UUID 1, UUID 6, UUID 7, UUID 8]"
    "list_all (\<lambda>i. is_uuid i \<and> sourced store_nested i) [UUID 2, UUID 3, UUID 4, UUID 5]"
    "list_all (\<lambda>i. is_uuid i \<and> sourced store_chain i) [UUID 1, UUID 2, UUID 3, UUID 4]"
    by code_simp+
  have res: "get_dependent_entities store_chain (UUID 1) = Some (Inr chain_result)"
    by code_simp
  have a: "get_entity_id db (UUID u) = Inr (UUID u)" for db u
    by simp
  note p = bfs_closure [of store_nested "UUID 1" "UUID 1" nested_project Contains
      "UUID 6" "UUID 7" "UUID 8" store_chain "UUID 1" "UUID 1" chain_result]
  note q = bfs_closure [of store_nested "UUID 2" "UUID 2" nested_anchor Contains
      "UUID 3" "UUID 4" "UUID 5" store_chain "UUID 1" "UUID 1" chain_result]
  note s = bfs_closure [of store_chain "UUID 1" "UUID 1" "chain_feature 1" Produces
      "UUID 2" "UUID 3" "UUID 4" store_chain "UUID 1" "UUID 1" chain_result]
  from p ok rows chains stored ids a have
    "\<exists>result. get_dependent_entities store_nested (UUID 1) = Some (Inr result)
       \<and> e_id ` set result = {UUID 6, UUID 7, UUID 8} \<and> distinct (map e_id result)"
    by simp
  moreover from q ok rows chains stored ids a have
    "\<exists>result. get_dependent_entities store_nested (UUID 2) = Some (Inr result)
       \<and> e_id ` set result = {UUID 3, UUID 4, UUID 5} \<and> distinct (map e_id result)"
    by simp
  moreover from s ok rows chains stored ids a res have
    "e_id ` set chain_result = {UUID 2, UUID 3, UUID 4}"
    "UUID 1 \<notin> e_id ` set chain_result"
    by auto
  ultimately show ?thesis
    using ok rows chains res by simp
qed

section \<open>Cleaning up empty anchors and sources\<close>

lemma orm_edges_criterion_false [simp]: "\<not> orm_edges_criterion self x e"
  by (simp add: orm_edges_criterion_def sql_or_def)

lemma delete_entity_uuid:
  "delete_entity self db (UUID u)
   = (Inr (),
      \<lparr>entities = filter (\<lambda>r. entity_id r \<noteq> UUID u) (entities db),
       edges =
         (if is_sqlalchemy_supported self then edges db
          else filter (\<lambda>e. \<not> (from_id e = UUID u \<or> to_id e = UUID u)) (edges db))\<rparr>)"
  by (simp add: delete_entity_def transaction_def then_do_def u_delete_all_entity_edges_def
      u_delete_entity_def)



subsection \<open>An empty anchor and its source\<close>













subsection \<open>The loop computes the reachable edges\<close>

lemma edge_rel_iff:
  "(x, y) \<in> edge_rel db ct
   \<longleftrightarrow> (\<exists>e \<in> set (edges db). conn_type e = ct \<and> from_id e = x \<and> to_id e = y)"
  by (auto simp: edge_rel_def)

lemma reached_eq:
  "reached db ct i = filter (\<lambda>r. (i, entity_id r) \<in> (edge_rel db ct)\<^sup>*) (entities db)"
  unfolding reached_def by (rule filter_cong) (auto simp: rtrancl_eq_or_trancl)

lemma bfs_loop_reach:
  assumes "bfs_loop db ct ids acc = Some conns"
  shows "set conns
         = set acc \<union> {e \<in> set (edges db). conn_type e = ct
                        \<and> (\<exists>x \<in> set ids. (x, from_id e) \<in> (edge_rel db ct)\<^sup>*)}"
  using assms
proof (induction db ct ids acc conns rule: bfs_loop.raw_induct [rotated 1, consumes 1])
  case (1 bfs_loop db ct to_ids connections y)
  let ?r = "edge_rel db ct"
  show ?case
  proof (cases "to_ids = []")
    case True
    with 1(2) show ?thesis by simp
  next
    case False
    let ?step = "u_bfs_step db to_ids ct"
    from False 1(2) have "bfs_loop db ct (map to_id ?step) (connections @ ?step) = Some y"
      by simp
    from 1(1) [OF this] have y: "set y
      = set connections \<union> set ?step
        \<union> {e \<in> set (edges db). conn_type e = ct
              \<and> (\<exists>x \<in> set (map to_id ?step). (x, from_id e) \<in> ?r\<^sup>*)}"
      by auto
    have "set ?step \<union> {e \<in> set (edges db). conn_type e = ct
              \<and> (\<exists>x \<in> set (map to_id ?step). (x, from_id e) \<in> ?r\<^sup>*)}
          = {e \<in> set (edges db). conn_type e = ct
              \<and> (\<exists>x \<in> set to_ids. (x, from_id e) \<in> ?r\<^sup>*)}"
      (is "?A \<union> ?B = ?C")
    proof (intro equalityI subsetI)
      fix e
      assume "e \<in> ?A \<union> ?B"
      then show "e \<in> ?C"
      proof
        assume "e \<in> ?A"
        then show ?thesis by (auto simp: u_bfs_step_def)
      next
        assume "e \<in> ?B"
        then obtain s where s: "s \<in> set ?step" "(to_id s, from_id e) \<in> ?r\<^sup>*"
          and e: "e \<in> set (edges db)" "conn_type e = ct"
          by auto
        from s(1) have "from_id s \<in> set to_ids" "(from_id s, to_id s) \<in> ?r"
          by (auto simp: u_bfs_step_def edge_rel_iff)
        with s(2) have "(from_id s, from_id e) \<in> ?r\<^sup>*" by (meson converse_rtrancl_into_rtrancl)
        with \<open>from_id s \<in> set to_ids\<close> e show ?thesis by auto
      qed
    next
      fix e
      assume "e \<in> ?C"
      then obtain x where x: "x \<in> set to_ids" "(x, from_id e) \<in> ?r\<^sup>*"
        and e: "e \<in> set (edges db)" "conn_type e = ct"
        by auto
      from x(2) show "e \<in> ?A \<union> ?B"
      proof (cases rule: converse_rtranclE)
        case base
        with x(1) e show ?thesis by (simp add: u_bfs_step_def)
      next
        case (step z)
        from step(1) obtain s where "s \<in> set (edges db)" "conn_type s = ct" "from_id s = x"
          "to_id s = z"
          by (auto simp: edge_rel_iff)
        with x(1) have "s \<in> set ?step" by (simp add: u_bfs_step_def)
        with \<open>to_id s = z\<close> step(2) e show ?thesis by auto
      qed
    qed
    with y show ?thesis by auto
  qed
qed

lemma bfs_loop_ids:
  assumes "bfs_loop db ct [i] [] = Some conns"
  shows "set (i # concat (map (\<lambda>r. [from_id r, to_id r]) conns)) = (edge_rel db ct)\<^sup>* `` {i}"
proof -
  let ?r = "edge_rel db ct"
  from bfs_loop_reach [OF assms] have conns:
    "set conns = {e \<in> set (edges db). conn_type e = ct \<and> (i, from_id e) \<in> ?r\<^sup>*}"
    by simp
  show ?thesis
  proof (intro equalityI subsetI)
    fix y
    assume "y \<in> set (i # concat (map (\<lambda>r. [from_id r, to_id r]) conns))"
    then consider "y = i" | e where "e \<in> set conns" "y = from_id e \<or> y = to_id e"
      by auto
    then show "y \<in> ?r\<^sup>* `` {i}"
    proof cases
      case 1
      then show ?thesis by simp
    next
      case 2
      with conns have "(i, from_id e) \<in> ?r\<^sup>*" "(from_id e, to_id e) \<in> ?r"
        by (auto simp: edge_rel_iff)
      with 2(2) show ?thesis by (auto intro: rtrancl_into_rtrancl)
    qed
  next
    fix y
    assume "y \<in> ?r\<^sup>* `` {i}"
    then have "(i, y) \<in> ?r\<^sup>*" by simp
    then show "y \<in> set (i # concat (map (\<lambda>r. [from_id r, to_id r]) conns))"
    proof (cases rule: rtranclE)
      case base
      then show ?thesis by simp
    next
      case (step z)
      from step(2) obtain e where "e \<in> set (edges db)" "conn_type e = ct" "from_id e = z"
        "to_id e = y"
        by (auto simp: edge_rel_iff)
      with step(1) conns have "e \<in> set conns" by simp
      with \<open>to_id e = y\<close> show ?thesis by force
    qed
  qed
qed

lemma acyclic_rank:
  assumes "finite r" and "acyclic r" and "(x, y) \<in> r"
  shows "card (r\<^sup>+ `` {y}) < card (r\<^sup>+ `` {x})"
proof (rule psubset_card_mono)
  from assms(1) have "finite (r\<^sup>+)" by simp
  then show "finite (r\<^sup>+ `` {x})" by (rule finite_Image)
  from assms(3) have "r\<^sup>+ `` {y} \<subseteq> r\<^sup>+ `` {x}"
    by (auto intro: trancl_into_trancl2)
  moreover from assms(3) have "y \<in> r\<^sup>+ `` {x}" by auto
  moreover from assms(2) have "y \<notin> r\<^sup>+ `` {y}" by (auto simp: acyclic_def)
  ultimately show "r\<^sup>+ `` {y} \<subset> r\<^sup>+ `` {x}" by blast
qed

lemma bfs_loop_acyclic:
  assumes "acyclic (edge_rel db ct)"
  shows "\<exists>conns. bfs_loop db ct ids acc = Some conns"
proof (rule bfs_loop_terminates)
  let ?r = "edge_rel db ct"
  have "finite ?r" by (simp add: edge_rel_def)
  then show "\<forall>e \<in> set (edges db). conn_type e = ct
               \<longrightarrow> card (?r\<^sup>+ `` {to_id e}) < card (?r\<^sup>+ `` {from_id e})"
    using assms by (auto intro!: acyclic_rank simp: edge_rel_iff)
qed

subsection \<open>The traversal on a store that can be cleaned up\<close>

lemma cleanable_iff:
  "cleanable db
   \<longleftrightarrow> readable db
       \<and> acyclic (edge_rel db Contains) \<and> acyclic (edge_rel db Produces)
       \<and> (\<forall>e \<in> set (edges db). conn_type e = Contains \<or> conn_type e = Produces
             \<longrightarrow> is_uuid (from_id e) \<and> is_uuid (to_id e))
       \<and> (\<forall>a \<in> set (entities db). is_uuid (entity_id a) \<longrightarrow> sourced db (entity_id a))
       \<and> (\<forall>n \<in> set (edges db).
             conn_type n = Consumes
             \<and> (\<exists>a \<in> set (entities db). entity_id a = from_id n \<and> entity_type a = Anchor)
             \<longrightarrow> edge_exists db (to_id n) (from_id n) Produces)"
  by (simp add: cleanable_def list_all_iff)

lemma reached_uuid:
  assumes "cleanable db" and "ct = Contains \<or> ct = Produces" and "is_uuid i"
    and "(i, y) \<in> (edge_rel db ct)\<^sup>*"
  shows "is_uuid y"
  using assms(4)
proof (cases rule: rtranclE)
  case base
  with assms(3) show ?thesis by simp
next
  case (step z)
  with assms(1,2) show ?thesis by (auto simp: edge_rel_iff cleanable_iff)
qed

lemma u_bfs_reached:
  assumes "cleanable db" and ct: "ct = Contains \<or> ct = Produces" and "is_uuid i"
  shows "\<exists>ents conns. u_bfs db i ct = Some (Inr (ents, conns))
           \<and> map e_id ents = map entity_id (reached db ct i)"
proof -
  from assms(1) have ok: "readable db" by (simp add: cleanable_iff)
  from assms(1) ct have "acyclic (edge_rel db ct)" by (auto simp: cleanable_iff)
  from bfs_loop_acyclic [OF this] obtain conns where
    conns: "bfs_loop db ct [i] [] = Some conns"
    by blast
  let ?ids = "i # concat (map (\<lambda>r. [from_id r, to_id r]) conns)"
  have ids: "set ?ids = (edge_rel db ct)\<^sup>* `` {i}"
    by (rule bfs_loop_ids [OF conns])
  have "is_uuid (entity_id r) \<and> sourced db (entity_id r)"
    if "r \<in> set (entities db)" "entity_id r \<in> set ?ids" for r
  proof -
    from that(2) have "entity_id r \<in> (edge_rel db ct)\<^sup>* `` {i}" by (simp only: ids)
    then have "(i, entity_id r) \<in> (edge_rel db ct)\<^sup>*" by simp
    from reached_uuid [OF assms(1) ct assms(3) this] have "is_uuid (entity_id r)" .
    with assms(1) that(1) show ?thesis by (simp add: cleanable_iff)
  qed
  then have "\<forall>r \<in> set (entities db). entity_id r \<in> set ?ids
               \<longrightarrow> is_uuid (entity_id r) \<and> sourced db (entity_id r)"
    by blast
  from get_entities_readable [OF ok this] obtain ents where
    ents: "get_entities db ?ids = Some (Inr ents)"
    "map e_id ents = map entity_id (filter (\<lambda>r. entity_id r \<in> set ?ids) (entities db))"
    by blast
  have "filter (\<lambda>r. entity_id r \<in> set ?ids) (entities db) = reached db ct i"
    unfolding reached_eq ids by (rule filter_cong) simp_all
  with ents have "map e_id ents = map entity_id (reached db ct i)" by simp
  moreover have "u_bfs db i ct = Some (Inr (ents, conns))"
    unfolding u_bfs_def conns option.case ents(1) by simp
  ultimately show ?thesis by blast
qed

lemma reached_only:
  assumes "readable db" and "r0 \<in> set (entities db)" and "entity_id r0 = i"
  shows "length (reached db ct i) = 1 \<longleftrightarrow> reaches_only_itself db ct i"
proof
  from assms(2,3) have r0: "r0 \<in> set (reached db ct i)" by (simp add: reached_eq)
  {
    assume "length (reached db ct i) = 1"
    then obtain x where "reached db ct i = [x]"
      by (cases "reached db ct i") simp_all
    with r0 assms(3) show "reaches_only_itself db ct i"
      by (simp add: reaches_only_itself_def)
  next
    assume only: "reaches_only_itself db ct i"
    from assms(1) have "distinct (entities db)"
      by (simp add: readable_iff distinct_map)
    then have d: "distinct (reached db ct i)" by (simp add: reached_eq)
    have "set (reached db ct i) = {r0}"
    proof (intro equalityI subsetI)
      fix r
      assume r: "r \<in> set (reached db ct i)"
      with only have "entity_id r = i" by (auto simp: reaches_only_itself_def)
      moreover from r have "r \<in> set (entities db)" by (simp add: reached_eq)
      ultimately have "r = r0"
        using readable_same_row [OF assms(1,2)] assms(3) by simp
      then show "r \<in> {r0}" by simp
    qed (use r0 in simp)
    with d have "card (set (reached db ct i)) = 1" by simp
    with d show "length (reached db ct i) = 1" by (simp add: distinct_card)
  }
qed

subsection \<open>Deleting an entity that no other anchor consumes\<close>

lemma edge_rel_mono:
  assumes "set (edges d) \<subseteq> set (edges db)"
  shows "edge_rel d ct \<subseteq> edge_rel db ct"
  using assms by (auto simp: edge_rel_def)

lemma cleanable_delete:
  assumes ok: "cleanable db"
    and rows: "entities d = filter (\<lambda>r. entity_id r \<noteq> x) (entities db)"
    and edges: "edges d = edges db
                \<or> edges d = filter (\<lambda>e. \<not> (from_id e = x \<or> to_id e = x)) (edges db)"
    and free: "\<forall>n \<in> set (edges db). \<forall>a \<in> set (entities db).
                 conn_type n = Consumes \<and> from_id n = entity_id a \<and> entity_type a = Anchor
                 \<and> entity_id a \<noteq> x \<longrightarrow> to_id n \<noteq> x"
  shows "cleanable d"
proof -
  from ok have rd: "readable db" by (simp add: cleanable_iff)
  from edges have sub: "set (edges d) \<subseteq> set (edges db)" by auto
  have kept: "n \<in> set (edges d)"
    if "n \<in> set (edges db)" "from_id n \<noteq> x" "to_id n \<noteq> x" for n
    using edges that by auto
  have stored: "a \<in> set (entities db) \<and> entity_id a \<noteq> x" if "a \<in> set (entities d)" for a
    using that rows by simp
  have consumed: "to_id n \<noteq> x"
    if "n \<in> set (edges db)" "conn_type n = Consumes" "a \<in> set (entities d)"
      "entity_id a = from_id n" "entity_type a = Anchor" for n a
    using free that stored [OF that(3)] by metis
  have "readable d"
    unfolding readable_iff
  proof (intro conjI ballI impI)
    from rd show "distinct (map entity_id (entities d))"
      unfolding rows by (simp add: readable_iff distinct_map_filter)
    fix r
    assume "r \<in> set (entities d)"
    with rd stored show "type_of_attributes (attributes r) = entity_type r"
      by (simp add: readable_iff)
  next
    fix n
    assume n: "n \<in> set (edges d)"
      and "conn_type n = Consumes
           \<and> (\<exists>a \<in> set (entities d). entity_id a = from_id n \<and> entity_type a = Anchor)"
    then obtain a where a: "conn_type n = Consumes" "a \<in> set (entities d)"
      "entity_id a = from_id n" "entity_type a = Anchor"
      by auto
    from n sub have n': "n \<in> set (edges db)" by auto
    from rd n' a stored [OF a(2)] obtain r where r: "is_uuid (to_id n)"
      "r \<in> set (entities db)" "entity_id r = to_id n" "entity_type r \<noteq> Anchor"
      unfolding readable_iff by metis
    from consumed [OF n' a] r have "r \<in> set (entities d)" by (simp add: rows)
    with r show "is_uuid (to_id n)"
      and "\<exists>r \<in> set (entities d). entity_id r = to_id n \<and> entity_type r \<noteq> Anchor"
      by auto
  qed
  moreover have "acyclic (edge_rel d Contains)" "acyclic (edge_rel d Produces)"
    using ok edge_rel_mono [OF sub] by (auto simp: cleanable_iff intro: acyclic_subset)
  moreover have "\<forall>e \<in> set (edges d). conn_type e = Contains \<or> conn_type e = Produces
                   \<longrightarrow> is_uuid (from_id e) \<and> is_uuid (to_id e)"
    using ok sub by (auto simp: cleanable_iff)
  moreover have "\<forall>a \<in> set (entities d). is_uuid (entity_id a) \<longrightarrow> sourced d (entity_id a)"
  proof (intro ballI impI)
    fix a
    assume a: "a \<in> set (entities d)" "is_uuid (entity_id a)"
    show "sourced d (entity_id a)"
      unfolding sourced_iff
    proof (intro ballI impI)
      fix a'
      assume a': "a' \<in> set (entities d)" "entity_id a' = entity_id a \<and> entity_type a' = Anchor"
      with ok a stored [OF a'(1)] have "u_bfs_step db [entity_id a] Consumes \<noteq> []"
        by (auto simp: cleanable_iff sourced_iff)
      then obtain n where "n \<in> set (u_bfs_step db [entity_id a] Consumes)"
        by (cases "u_bfs_step db [entity_id a] Consumes") auto
      then have n: "n \<in> set (edges db)" "conn_type n = Consumes" "from_id n = entity_id a"
        by (simp_all add: u_bfs_step_def)
      from consumed [OF n(1,2) a'(1)] a' n(3) have "to_id n \<noteq> x" by simp
      moreover from stored [OF a(1)] n(3) have "from_id n \<noteq> x" by simp
      ultimately have "n \<in> set (edges d)" using n(1) by (intro kept)
      with n show "u_bfs_step d [entity_id a] Consumes \<noteq> []"
        by (auto simp: u_bfs_step_def filter_empty_conv)
    qed
  qed
  moreover have "\<forall>n \<in> set (edges d).
      conn_type n = Consumes
      \<and> (\<exists>a \<in> set (entities d). entity_id a = from_id n \<and> entity_type a = Anchor)
      \<longrightarrow> edge_exists d (to_id n) (from_id n) Produces"
  proof (intro ballI impI)
    fix n
    assume n: "n \<in> set (edges d)"
      and "conn_type n = Consumes
           \<and> (\<exists>a \<in> set (entities d). entity_id a = from_id n \<and> entity_type a = Anchor)"
    then obtain a where a: "conn_type n = Consumes" "a \<in> set (entities d)"
      "entity_id a = from_id n" "entity_type a = Anchor"
      by auto
    from n sub have n': "n \<in> set (edges db)" by auto
    with ok a stored [OF a(2)] have "edge_exists db (to_id n) (from_id n) Produces"
      unfolding cleanable_iff by metis
    then obtain p where p: "p \<in> set (edges db)" "from_id p = to_id n" "to_id p = from_id n"
      "conn_type p = Produces"
      by (auto simp: edge_exists_iff)
    from consumed [OF n' a] stored [OF a(2)] a(3) p have "p \<in> set (edges d)"
      by (intro kept) simp_all
    with p show "edge_exists d (to_id n) (from_id n) Produces"
      by (auto simp: edge_exists_iff)
  qed
  ultimately show ?thesis by (simp add: cleanable_iff)
qed

subsection \<open>One pass\<close>

lemma listed_of_iff:
  "listed_of ty db es
   \<longleftrightarrow> distinct (map e_id (filter (\<lambda>e. e_entity_type e = ty) es))
       \<and> (\<forall>e \<in> set es. e_entity_type e = ty
             \<longrightarrow> is_uuid (e_id e)
                 \<and> (\<exists>r \<in> set (entities db). entity_id r = e_id e \<and> entity_type r = ty))"
  by (simp add: listed_of_def list_all_iff)

lemma delete_entity_store:
  assumes "is_uuid x"
  shows "delete_entity self db x = (Inr (), snd (delete_entity self db x))"
    and "entities (snd (delete_entity self db x)) = filter (\<lambda>r. entity_id r \<noteq> x) (entities db)"
    and "edges (snd (delete_entity self db x)) = edges db
         \<or> edges (snd (delete_entity self db x))
            = filter (\<lambda>e. \<not> (from_id e = x \<or> to_id e = x)) (edges db)"
proof -
  from assms obtain u where "x = UUID u" by (cases x) simp_all
  then show "delete_entity self db x = (Inr (), snd (delete_entity self db x))"
    and "entities (snd (delete_entity self db x)) = filter (\<lambda>r. entity_id r \<noteq> x) (entities db)"
    and "edges (snd (delete_entity self db x)) = edges db
         \<or> edges (snd (delete_entity self db x))
            = filter (\<lambda>e. \<not> (from_id e = x \<or> to_id e = x)) (edges db)"
    by (simp_all add: delete_entity_uuid)
qed

lemma not_consumed:
  assumes ok: "cleanable db"
    and r0: "r0 \<in> set (entities db)" "entity_id r0 = i" "entity_type r0 = ty"
    and ty: "ty = Anchor \<and> ct = Contains \<or> ty = Source \<and> ct = Produces"
    and only: "reaches_only_itself db ct i"
  shows "\<forall>n \<in> set (edges db). \<forall>a \<in> set (entities db).
           conn_type n = Consumes \<and> from_id n = entity_id a \<and> entity_type a = Anchor
           \<and> entity_id a \<noteq> i \<longrightarrow> to_id n \<noteq> i"
proof (intro ballI impI notI)
  fix n a
  assume n: "n \<in> set (edges db)" and a: "a \<in> set (entities db)"
    and c: "conn_type n = Consumes \<and> from_id n = entity_id a \<and> entity_type a = Anchor
            \<and> entity_id a \<noteq> i"
    and to: "to_id n = i"
  from ok have rd: "readable db" by (simp add: cleanable_iff)
  from rd n a c obtain r where r: "r \<in> set (entities db)" "entity_id r = to_id n"
    "entity_type r \<noteq> Anchor"
    unfolding readable_iff by metis
  from readable_same_row [OF rd r0(1) r(1)] r(2) to r0(2) have "r = r0" by simp
  with r(3) r0(3) ty have ct: "ty = Source" "ct = Produces" by auto
  from ok n a c have "edge_exists db (to_id n) (from_id n) Produces"
    unfolding cleanable_iff by metis
  with to c ct have "(i, entity_id a) \<in> edge_rel db ct"
    by (auto simp: edge_exists_iff edge_rel_iff)
  with a have "a \<in> set (reached db ct i)" by (simp add: reached_eq)
  with only have "entity_id a = i" by (auto simp: reaches_only_itself_def)
  with c show False by simp
qed

lemma clean_up_pass:
  assumes "cleanable db" and "listed_of ty db es"
    and ty: "ty = Anchor \<and> ct = Contains \<or> ty = Source \<and> ct = Produces"
  shows "clean_up self ty ct es db = Some (Inr (), pass self ty ct es db)
         \<and> cleanable (pass self ty ct es db)
         \<and> (\<forall>r \<in> set (entities db). entity_type r \<noteq> ty
               \<longrightarrow> r \<in> set (entities (pass self ty ct es db)))"
  using assms(1,2)
proof (induction es arbitrary: db)
  case Nil
  then show ?case by simp
next
  case (Cons e es)
  from Cons.prems(2) have tail: "listed_of ty db es"
    by (auto simp: listed_of_iff split: if_splits)
  note IH = Cons.IH [OF Cons.prems(1) tail]
  show ?case
  proof (cases "e_entity_type e = ty")
    case False
    with IH show ?thesis by simp
  next
    case True
    let ?i = "e_id e"
    from True Cons.prems(2) obtain r0 where uuid: "is_uuid ?i"
      and r0: "r0 \<in> set (entities db)" "entity_id r0 = ?i" "entity_type r0 = ty"
      by (auto simp: listed_of_iff)
    from Cons.prems(1) have rd: "readable db" by (simp add: cleanable_iff)
    from ty have ct: "ct = Contains \<or> ct = Produces" by auto
    from u_bfs_reached [OF Cons.prems(1) ct uuid] obtain ents conns where
      bfs: "u_bfs db ?i ct = Some (Inr (ents, conns))"
      and ents: "map e_id ents = map entity_id (reached db ct ?i)"
      by blast
    from ents have "length ents = length (reached db ct ?i)"
      by (metis length_map)
    with reached_only [OF rd r0(1,2), of ct] have test:
      "length ents = 1 \<longleftrightarrow> reaches_only_itself db ct ?i"
      by simp
    show ?thesis
    proof (cases "reaches_only_itself db ct ?i")
      case False
      with True bfs test IH show ?thesis by simp
    next
      case only: True
      let ?d = "snd (delete_entity self db ?i)"
      note del = delete_entity_store [OF uuid, of self db]
      have ok: "cleanable ?d"
        using Cons.prems(1) del(2,3) not_consumed [OF Cons.prems(1) r0 ty only]
        by (rule cleanable_delete)
      have other: "r \<in> set (entities ?d)"
        if "r \<in> set (entities db)" "entity_id r \<noteq> ?i" for r
        using that by (simp add: del(2))
      have "listed_of ty ?d es"
        unfolding listed_of_iff
      proof (intro conjI ballI impI)
        from tail show "distinct (map e_id (filter (\<lambda>e. e_entity_type e = ty) es))"
          by (simp add: listed_of_iff)
        fix e'
        assume e': "e' \<in> set es" "e_entity_type e' = ty"
        with tail show "is_uuid (e_id e')" by (simp add: listed_of_iff)
        from e' tail obtain r where r: "r \<in> set (entities db)" "entity_id r = e_id e'"
          "entity_type r = ty"
          by (auto simp: listed_of_iff)
        from Cons.prems(2) True have
          "?i \<notin> e_id ` set (filter (\<lambda>e. e_entity_type e = ty) es)"
          by (simp add: listed_of_iff)
        moreover from e' have "e' \<in> set (filter (\<lambda>e. e_entity_type e = ty) es)" by simp
        ultimately have "e_id e' \<noteq> ?i" by (metis imageI)
        with r other [of r]
        show "\<exists>r \<in> set (entities ?d). entity_id r = e_id e' \<and> entity_type r = ty"
          by auto
      qed
      note IH' = Cons.IH [OF ok this]
      have "r \<in> set (entities (pass self ty ct es ?d))"
        if r: "r \<in> set (entities db)" "entity_type r \<noteq> ty" for r
      proof -
        have "entity_id r \<noteq> ?i"
        proof
          assume "entity_id r = ?i"
          with readable_same_row [OF rd r0(1) r(1)] r0(2) have "r = r0" by simp
          with r(2) r0(3) show False by simp
        qed
        with other r(1) have "r \<in> set (entities ?d)" by simp
        with IH' r(2) show ?thesis by simp
      qed
      moreover have "clean_up self ty ct (e # es) db = clean_up self ty ct es ?d"
      proof -
        obtain res d where d: "delete_entity self db ?i = (res, d)"
          by (cases "delete_entity self db ?i")
        with del(1) have "res = Inr ()" by simp
        with d True only bfs test show ?thesis by simp
      qed
      ultimately show ?thesis using True only IH' by simp
    qed
  qed
qed

subsection \<open>The two passes\<close>

lemma listed_listed_of:
  assumes "listed db es"
  shows "listed_of ty db es"
  using assms by (auto simp: listed_def listed_of_iff list_all_iff distinct_map_filter)

lemma delete_empty_entities_two_passes:
  assumes "cleanable db" and "listed db es"
  shows "delete_empty_entities self db es = Some (Inr (), two_passes self db es)"
proof (cases "es = []")
  case True
  then show ?thesis by (simp add: delete_empty_entities_def two_passes_def)
next
  case False
  let ?d1 = "pass self Anchor Contains es db"
  from clean_up_pass [OF assms(1) listed_listed_of [OF assms(2)], where ct = Contains and self = self]
  have p1: "clean_up self Anchor Contains es db = Some (Inr (), ?d1)"
    and ok1: "cleanable ?d1"
    and kept: "\<forall>r \<in> set (entities db). entity_type r \<noteq> Anchor \<longrightarrow> r \<in> set (entities ?d1)"
    by simp_all
  have "listed_of Source ?d1 es"
    unfolding listed_of_iff
  proof (intro conjI ballI impI)
    from assms(2) show "distinct (map e_id (filter (\<lambda>e. e_entity_type e = Source) es))"
      by (simp add: listed_def distinct_map_filter)
    fix e
    assume e: "e \<in> set es" "e_entity_type e = Source"
    with assms(2) show "is_uuid (e_id e)" by (simp add: listed_def list_all_iff)
    from e assms(2) obtain r where "r \<in> set (entities db)" "entity_id r = e_id e"
      "entity_type r = Source"
      by (auto simp: listed_def list_all_iff)
    with kept show "\<exists>r \<in> set (entities ?d1). entity_id r = e_id e \<and> entity_type r = Source"
      by auto
  qed
  from clean_up_pass [OF ok1 this, where ct = Produces and self = self]
  have "clean_up self Source Produces es ?d1
        = Some (Inr (), pass self Source Produces es ?d1)"
    by simp
  with False p1 show ?thesis
    by (simp add: delete_empty_entities_def two_passes_def)
qed

subsection \<open>What a pass deletes\<close>

lemma pass_sub:
  assumes "\<forall>e \<in> set es. e_entity_type e = ty \<longrightarrow> is_uuid (e_id e)"
  shows "set (entities (pass self ty ct es db)) \<subseteq> set (entities db)
         \<and> set (edges (pass self ty ct es db)) \<subseteq> set (edges db)"
  using assms
proof (induction es arbitrary: db)
  case Nil
  then show ?case by simp
next
  case (Cons e es)
  show ?case
  proof (cases "e_entity_type e = ty \<and> reaches_only_itself db ct (e_id e)")
    case False
    with Cons show ?thesis by auto
  next
    case True
    with Cons.prems have uuid: "is_uuid (e_id e)" by simp
    let ?d = "snd (delete_entity self db (e_id e))"
    from delete_entity_store(2,3) [OF uuid, of self db]
    have "set (entities ?d) \<subseteq> set (entities db)" "set (edges ?d) \<subseteq> set (edges db)"
      by auto
    moreover from Cons have
      "set (entities (pass self ty ct es ?d)) \<subseteq> set (entities ?d)
       \<and> set (edges (pass self ty ct es ?d)) \<subseteq> set (edges ?d)"
      by simp
    ultimately show ?thesis using True by auto
  qed
qed

lemma reached_mono:
  assumes "set (entities d) \<subseteq> set (entities db)" and "set (edges d) \<subseteq> set (edges db)"
  shows "set (reached d ct i) \<subseteq> set (reached db ct i)"
proof -
  from edge_rel_mono [OF assms(2)] have "(edge_rel d ct)\<^sup>* \<subseteq> (edge_rel db ct)\<^sup>*"
    by (rule rtrancl_mono)
  with assms(1) show ?thesis by (auto simp: reached_eq)
qed

lemma pass_deletes:
  assumes "\<forall>e \<in> set es. e_entity_type e = ty \<longrightarrow> is_uuid (e_id e)"
    and "e \<in> set es" and "e_entity_type e = ty"
    and "entity_id ` set (reached db ct (e_id e)) \<subseteq> {e_id e}"
  shows "e_id e \<notin> entity_id ` set (entities (pass self ty ct es db))"
  using assms(1,2,4)
proof (induction es arbitrary: db)
  case Nil
  then show ?case by simp
next
  case (Cons e' es)
  let ?i = "e_id e"
  let ?c = "e_entity_type e' = ty \<and> reaches_only_itself db ct (e_id e')"
  let ?d = "if ?c then snd (delete_entity self db (e_id e')) else db"
  from Cons.prems(1) have tail: "\<forall>e \<in> set es. e_entity_type e = ty \<longrightarrow> is_uuid (e_id e)"
    by simp
  have next_store: "pass self ty ct (e' # es) db = pass self ty ct es ?d"
    by simp
  have sub: "set (entities ?d) \<subseteq> set (entities db)" "set (edges ?d) \<subseteq> set (edges db)"
  proof -
    have "set (entities ?d) \<subseteq> set (entities db) \<and> set (edges ?d) \<subseteq> set (edges db)"
    proof (cases ?c)
      case True
      with Cons.prems(1) have "is_uuid (e_id e')" by simp
      from delete_entity_store(2,3) [OF this, of self db] True show ?thesis by auto
    next
      case False
      then show ?thesis by auto
    qed
    then show "set (entities ?d) \<subseteq> set (entities db)" "set (edges ?d) \<subseteq> set (edges db)"
      by simp_all
  qed
  from reached_mono [OF sub] Cons.prems(3)
  have only: "entity_id ` set (reached ?d ct ?i) \<subseteq> {?i}" by blast
  show ?case
  proof (cases "e \<in> set es")
    case True
    from Cons.IH [OF tail True only] show ?thesis unfolding next_store .
  next
    case False
    with Cons.prems(2) have e: "e' = e" by simp
    have "?i \<notin> entity_id ` set (entities ?d)"
    proof (cases ?c)
      case True
      with Cons.prems(1) have "is_uuid (e_id e')" by simp
      from delete_entity_store(2) [OF this, of self db] True e show ?thesis by auto
    next
      case False
      with e assms(3) have "entity_id ` set (reached db ct ?i) \<noteq> {?i}"
        by (simp add: reaches_only_itself_def)
      with Cons.prems(3) have "?i \<notin> entity_id ` set (reached db ct ?i)" by blast
      then have "?i \<notin> entity_id ` set (entities db)" by (auto simp: reached_eq)
      with False show ?thesis by auto
    qed
    with pass_sub [OF tail, where self = self and ct = ct and db = ?d] show ?thesis
      unfolding next_store by blast
  qed
qed

lemma two_passes_source:
  assumes uuids: "\<forall>e \<in> set es. is_uuid (e_id e)"
    and eS: "eS \<in> set es" "e_entity_type eS = Source"
    and anchors: "\<forall>r \<in> set (reached db Produces (e_id eS)). entity_id r \<noteq> e_id eS
                    \<longrightarrow> (\<exists>eA \<in> set es. e_id eA = entity_id r \<and> e_entity_type eA = Anchor
                          \<and> reaches_only_itself db Contains (entity_id r))"
  shows "e_id eS \<notin> entity_id ` set (entities (two_passes self db es))"
proof -
  let ?d1 = "pass self Anchor Contains es db"
  from uuids have u: "\<forall>e \<in> set es. e_entity_type e = ty \<longrightarrow> is_uuid (e_id e)" for ty
    by simp
  from pass_sub [OF u, where ty = Anchor and self = self and ct = Contains and db = db]
  have sub: "set (entities ?d1) \<subseteq> set (entities db)" "set (edges ?d1) \<subseteq> set (edges db)"
    by simp_all
  have "entity_id r = e_id eS" if r: "r \<in> set (reached ?d1 Produces (e_id eS))" for r
  proof (rule ccontr)
    assume other: "entity_id r \<noteq> e_id eS"
    from r reached_mono [OF sub] have "r \<in> set (reached db Produces (e_id eS))" by blast
    with anchors other obtain eA where eA: "eA \<in> set es" "e_id eA = entity_id r"
      "e_entity_type eA = Anchor" "reaches_only_itself db Contains (entity_id r)"
      by blast
    then have "entity_id ` set (reached db Contains (e_id eA)) \<subseteq> {e_id eA}"
      by (simp add: reaches_only_itself_def)
    from pass_deletes [OF u eA(1,3) this, where self = self]
    have "e_id eA \<notin> entity_id ` set (entities ?d1)" .
    moreover from r have "r \<in> set (entities ?d1)" by (simp add: reached_eq)
    ultimately show False using eA(2) by auto
  qed
  then have "entity_id ` set (reached ?d1 Produces (e_id eS)) \<subseteq> {e_id eS}" by auto
  from pass_deletes [OF u eS this, where self = self] show ?thesis
    by (simp add: two_passes_def)
qed

lemma delete_empty_entities_source:
  assumes "cleanable db" and "listed db es"
    and "eS \<in> set es" and "e_entity_type eS = Source"
    and "\<forall>r \<in> set (reached db Produces (e_id eS)). entity_id r \<noteq> e_id eS
           \<longrightarrow> (\<exists>eA \<in> set es. e_id eA = entity_id r \<and> e_entity_type eA = Anchor
                 \<and> reaches_only_itself db Contains (entity_id r))"
  shows "\<exists>db'. delete_empty_entities self db es = Some (Inr (), db')
           \<and> e_id eS \<notin> entity_id ` set (entities db')"
proof -
  from assms(2) have "\<forall>e \<in> set es. is_uuid (e_id e)"
    by (simp add: listed_def list_all_iff)
  from two_passes_source [OF this assms(3-5), where self = self]
    delete_empty_entities_two_passes [OF assms(1,2), where self = self]
  show ?thesis by blast
qed

section \<open>Lineage\<close>

subsection \<open>Every Produces edge has its Consumes edge\<close>

lemma lineage_pairs_iff:
  "lineage_pairs db
   \<longleftrightarrow> (\<forall>e \<in> set (edges db). conn_type e = Produces
          \<longrightarrow> edge_exists db (to_id e) (from_id e) Consumes)"
  by (simp add: lineage_pairs_def list_all_iff)

lemma u_create_edge_edges:
  "edges (snd (u_create_edge self c u f t ty d)) = edges d
   \<or> edges (snd (u_create_edge self c u f t ty d))
     = edges d @ [\<lparr>edge_id = u, from_id = f, to_id = t, conn_type = ty\<rparr>]"
  by (simp add: u_create_edge_def insert_edge_def Let_def)

lemma u_create_edge_exists:
  assumes "u_create_edge self c u f t ty d = (Inr v, d')"
  shows "edge_exists d' f t ty"
  using assms
  by (auto simp: u_create_edge_def insert_edge_def Let_def edge_exists_iff split: if_splits)

lemma lineage_pairs_other:
  assumes "lineage_pairs d" and "ty \<noteq> Produces"
  shows "lineage_pairs (snd (u_create_edge self c u f t ty d))"
  using assms u_create_edge_edges [of self c u f t ty d]
  by (auto simp: lineage_pairs_iff edge_exists_iff)

lemma lineage_pairs_produces:
  assumes "lineage_pairs d" and "edge_exists d t f Consumes"
  shows "lineage_pairs (snd (u_create_edge self c u f t Produces d))"
  using assms u_create_edge_edges [of self c u f t Produces d]
  unfolding lineage_pairs_iff edge_exists_iff
  by (elim disjE) (simp, fastforce)

lemma lineage_pairs_insert_entity:
  "lineage_pairs d \<Longrightarrow> lineage_pairs (snd (insert_entity row d))"
  by (simp add: insert_entity_def lineage_pairs_iff edge_exists_iff)

lemma lineage_pairs_return: "lineage_pairs d \<Longrightarrow> lineage_pairs (snd (r, d))"
  by simp

lemma lineage_pairs_pair:
  assumes "lineage_pairs d" and "\<And>v d'. lineage_pairs d' \<Longrightarrow> lineage_pairs (snd (k v d'))"
  shows "lineage_pairs
           (snd (then_do (u_create_edge self c u1 a b Consumes d)
                   (\<lambda>u d'. then_do (u_create_edge self c u2 b a Produces d') k)))"
proof (cases "u_create_edge self c u1 a b Consumes d")
  case (Pair r d1)
  have d1: "lineage_pairs d1"
    using lineage_pairs_other [OF assms(1), of Consumes self c u1 a b] Pair by simp
  show ?thesis
  proof (cases r)
    case (Inl err)
    with Pair d1 show ?thesis by (simp add: then_do_def)
  next
    case (Inr v)
    with Pair have "edge_exists d1 a b Consumes"
      by (simp add: u_create_edge_exists)
    with d1 have "lineage_pairs (snd (u_create_edge self c u2 b a Produces d1))"
      by (rule lineage_pairs_produces)
    then have "lineage_pairs (snd (then_do (u_create_edge self c u2 b a Produces d1) k))"
      by (rule then_do_snd) (rule assms(2))
    with Pair Inr show ?thesis by (simp add: then_do_def)
  qed
qed

lemma lineage_pairs_then_other:
  assumes "lineage_pairs d" and "ty \<noteq> Produces"
    and "\<And>v d'. lineage_pairs d' \<Longrightarrow> lineage_pairs (snd (k v d'))"
  shows "lineage_pairs (snd (then_do (u_create_edge self c u f t ty d) k))"
  by (rule then_do_snd) (simp_all add: assms lineage_pairs_other)

lemma lineage_pairs_then_insert:
  assumes "lineage_pairs d"
    and "\<And>v d'. lineage_pairs d' \<Longrightarrow> lineage_pairs (snd (k v d'))"
  shows "lineage_pairs (snd (then_do (insert_entity row d) k))"
  by (rule then_do_snd) (simp_all add: assms lineage_pairs_insert_entity)

lemma create_input_edges_pairs:
  "lineage_pairs d \<Longrightarrow> lineage_pairs (snd (create_input_edges self c g k i rs d))"
proof (induction rs arbitrary: k d)
  case Nil
  then show ?case by simp
next
  case (Cons r rs)
  show ?case
    unfolding create_input_edges.simps
    by (rule lineage_pairs_pair) (simp_all add: Cons)
qed

lemma project_block_pairs:
  assumes "lineage_pairs db"
  shows "lineage_pairs (snd (project_block defn g c db))"
  using assms
  by (auto simp: project_block_def project_found_def project_new_def
      intro!: lineage_pairs_then_insert split: list.splits)

lemma datasource_block_pairs:
  assumes "lineage_pairs db"
  shows "lineage_pairs (snd (datasource_block self pid defn g qn c db))"
proof (cases "rows_named db qn")
  case Nil
  then show ?thesis
    unfolding datasource_block_def datasource_new_def
    by (simp, intro lineage_pairs_then_insert lineage_pairs_then_other assms) simp_all
next
  case (Cons row rest)
  then show ?thesis
    by (simp add: datasource_block_def datasource_found_def assms split: Attributes.splits)
qed

lemma anchor_block_pairs:
  assumes "lineage_pairs db"
  shows "lineage_pairs (snd (anchor_block self pid defn g qn c db))"
proof (cases "rows_named db qn")
  case Nil
  show ?thesis
  proof (cases "filter (\<lambda>r. entity_id r = ad_source_id defn \<and> entity_type r = Source)
                  (entities db)")
    case Nil' : Nil
    with Nil show ?thesis
      by (simp add: anchor_block_def anchor_new_def assms)
  next
    case (Cons s ss)
    with Nil show ?thesis
      unfolding anchor_block_def anchor_new_def
      by (simp split del: if_split,
          intro lineage_pairs_then_insert lineage_pairs_pair lineage_pairs_then_other assms)
         simp_all
  qed
next
  case (Cons row rest)
  then show ?thesis
    by (simp add: anchor_block_def anchor_found_def assms split: Attributes.splits)
qed

lemma anchor_feature_block_pairs:
  assumes "lineage_pairs db"
  shows "lineage_pairs (snd (anchor_feature_block self pid aid anchor defn g qn c db))"
proof (cases "rows_named db qn")
  case Nil
  show ?thesis
  proof (cases "e_source anchor")
    case None
    with Nil show ?thesis
      by (simp add: anchor_feature_block_def anchor_feature_new_def assms)
  next
    case (Some source)
    with Nil show ?thesis
      unfolding anchor_feature_block_def anchor_feature_new_def
      by (simp, intro lineage_pairs_then_insert lineage_pairs_pair lineage_pairs_then_other assms)
         simp_all
  qed
next
  case (Cons row rest)
  then show ?thesis
    by (simp add: anchor_feature_block_def anchor_feature_found_def assms
        split: Attributes.splits)
qed

lemma lineage_pairs_then_inputs:
  assumes "lineage_pairs d"
    and "\<And>v d'. lineage_pairs d' \<Longrightarrow> lineage_pairs (snd (f v d'))"
  shows "lineage_pairs (snd (then_do (create_input_edges self c g k i rs d) f))"
  by (rule then_do_snd) (simp_all add: assms create_input_edges_pairs)

lemma derived_feature_insert_pairs:
  assumes "lineage_pairs db"
  shows "lineage_pairs (snd (derived_feature_insert self pid defn g qn c inputs db))"
  unfolding derived_feature_insert_def
  by (intro lineage_pairs_then_insert lineage_pairs_then_other lineage_pairs_then_inputs assms)
     simp_all

lemma derived_feature_block_pairs:
  assumes "lineage_pairs db"
  shows "lineage_pairs (snd (derived_feature_block self pid defn g qn c db))"
proof (cases "rows_named db qn")
  case Nil
  then show ?thesis
    by (simp add: derived_feature_block_def derived_feature_new_def assms
        derived_feature_insert_pairs)
next
  case (Cons row rest)
  then show ?thesis
    by (simp add: derived_feature_block_def derived_feature_found_def assms
        split: Attributes.splits)
qed

lemma apply_operation_pairs:
  assumes "lineage_pairs db" and "apply_operation self operation db = Some (res, db')"
  shows "lineage_pairs db'"
  using assms
  by (rule apply_operation_keeps)
     (simp_all add: assms(1) project_block_pairs datasource_block_pairs anchor_block_pairs
       anchor_feature_block_pairs derived_feature_block_pairs)

lemma run_pairs:
  assumes "lineage_pairs db" and "run self operations db = Some db'"
  shows "lineage_pairs db'"
  using apply_operation_pairs assms by (rule run_keeps)

subsection \<open>Well-formed stores\<close>

lemma position_mem:
  assumes "x \<in> entity_id ` set rows"
  shows "position (rows @ rest) x = position rows x"
proof -
  from assms obtain r where "r \<in> set rows" and "\<not> entity_id r \<noteq> x" by auto
  then have "takeWhile (\<lambda>r. entity_id r \<noteq> x) (rows @ rest)
             = takeWhile (\<lambda>r. entity_id r \<noteq> x) rows"
    by (rule takeWhile_append1)
  then show ?thesis by (simp add: position_def)
qed

lemma position_less:
  assumes "x \<in> entity_id ` set rows"
  shows "position rows x < length rows"
  using assms by (induction rows) (auto simp: position_def)

lemma position_not_mem:
  assumes "x \<notin> entity_id ` set rows"
  shows "position (rows @ rest) x = length rows + position rest x"
  using assms unfolding position_def by (subst takeWhile_append2) auto

lemma position_append: "position rows x \<le> position (rows @ rest) x"
proof (cases "x \<in> entity_id ` set rows")
  case True
  then show ?thesis by (simp add: position_mem)
next
  case False
  from position_not_mem [OF False, of "[]"] position_not_mem [OF False, of rest]
  show ?thesis by (simp add: position_def)
qed

lemma consumable_new:
  assumes "r \<in> set rows" and "entity_id r = b" and "entity_type r \<noteq> Anchor"
    and "a \<notin> entity_id ` set rows" and "is_uuid a"
  shows "consumable (rows @ rest) a b"
proof -
  from assms(1,2) have b: "b \<in> entity_id ` set rows" by auto
  have "position (rows @ rest) b < length rows"
    using position_mem [OF b, of rest] position_less [OF b] by simp
  also have "length rows \<le> position (rows @ rest) a"
    by (simp add: position_not_mem [OF assms(4)])
  finally show ?thesis
    using assms by (auto simp: consumable_def)
qed

lemma consumable_append:
  assumes "consumable rows a b"
  shows "consumable (rows @ rest) a b"
proof -
  from assms have b: "b \<in> entity_id ` set rows" by (auto simp: consumable_def)
  have "position (rows @ rest) b = position rows b" by (rule position_mem [OF b])
  also from assms have "position rows b < position rows a" by (simp add: consumable_def)
  also have "position rows a \<le> position (rows @ rest) a" by (rule position_append)
  finally show ?thesis
    using assms by (auto simp: consumable_def)
qed

lemma well_formed_iff:
  "well_formed db
   \<longleftrightarrow> distinct (map entity_id (entities db))
       \<and> (\<forall>r \<in> set (entities db).
             type_of_attributes (attributes r) = entity_type r
             \<and> (entity_type r \<noteq> Anchor \<longrightarrow> is_uuid (entity_id r)))
       \<and> (\<forall>e \<in> set (edges db).
             conn_type e = Consumes \<longrightarrow> consumable (entities db) (from_id e) (to_id e))
       \<and> lineage_pairs db"
  by (simp add: well_formed_def list_all_iff)

lemma well_formed_edge:
  assumes "well_formed d"
    and "ty = Consumes \<longrightarrow> consumable (entities d) f t"
    and "ty = Produces \<longrightarrow> edge_exists d t f Consumes"
  shows "well_formed (snd (u_create_edge self c u f t ty d))"
proof -
  let ?d = "snd (u_create_edge self c u f t ty d)"
  from assms(1) have pairs: "lineage_pairs d" by (simp add: well_formed_iff)
  have "lineage_pairs ?d"
  proof (cases "ty = Produces")
    case True
    with assms(3) pairs show ?thesis by (simp add: lineage_pairs_produces)
  next
    case False
    with pairs show ?thesis by (simp add: lineage_pairs_other)
  qed
  moreover have "\<forall>e \<in> set (edges ?d).
      conn_type e = Consumes \<longrightarrow> consumable (entities d) (from_id e) (to_id e)"
    using u_create_edge_edges [of self c u f t ty d] assms(1,2)
    by (auto simp: well_formed_iff)
  ultimately show ?thesis
    using assms(1) by (simp add: well_formed_iff)
qed

lemma well_formed_with_edge:
  assumes "well_formed_with E d"
    and "ty = Consumes \<longrightarrow> consumable E f t"
    and "ty = Produces \<longrightarrow> edge_exists d t f Consumes"
  shows "well_formed_with E (snd (u_create_edge self c u f t ty d))"
  using assms well_formed_edge [of d ty f t self c u]
  by (simp add: well_formed_with_def)

lemma well_formed_with_contains:
  assumes "well_formed_with E d"
    and "\<And>v d'. well_formed_with E d' \<Longrightarrow> well_formed_with E (snd (k v d'))"
  shows "well_formed_with E (snd (then_do (u_create_edge self c u f t Contains d) k))"
  by (rule then_do_snd) (simp_all add: assms well_formed_with_edge)

lemma well_formed_with_belongs:
  assumes "well_formed_with E d"
    and "\<And>v d'. well_formed_with E d' \<Longrightarrow> well_formed_with E (snd (k v d'))"
  shows "well_formed_with E (snd (then_do (u_create_edge self c u f t BelongsTo d) k))"
  by (rule then_do_snd) (simp_all add: assms well_formed_with_edge)

lemma well_formed_with_pair:
  assumes "well_formed_with E d" and "consumable E a b"
    and "\<And>v d'. well_formed_with E d' \<Longrightarrow> well_formed_with E (snd (k v d'))"
  shows "well_formed_with E
           (snd (then_do (u_create_edge self c u1 a b Consumes d)
                   (\<lambda>u d'. then_do (u_create_edge self c u2 b a Produces d') k)))"
proof (cases "u_create_edge self c u1 a b Consumes d")
  case (Pair r d1)
  have d1: "well_formed_with E d1"
    using well_formed_with_edge [OF assms(1), of Consumes a b self c u1] assms(2) Pair
    by simp
  show ?thesis
  proof (cases r)
    case (Inl err)
    with Pair d1 show ?thesis by (simp add: then_do_def)
  next
    case (Inr v)
    with Pair have "edge_exists d1 a b Consumes"
      by (simp add: u_create_edge_exists)
    with d1 have "well_formed_with E (snd (u_create_edge self c u2 b a Produces d1))"
      by (intro well_formed_with_edge) simp_all
    then have
      "well_formed_with E (snd (then_do (u_create_edge self c u2 b a Produces d1) k))"
      by (rule then_do_snd) (rule assms(3))
    with Pair Inr show ?thesis by (simp add: then_do_def)
  qed
qed

lemma well_formed_with_inputs:
  assumes "well_formed_with E d" and "\<forall>r \<in> set rs. consumable E i (entity_id r)"
  shows "well_formed_with E (snd (create_input_edges self c g k i rs d))"
  using assms
proof (induction rs arbitrary: k d)
  case Nil
  then show ?case by simp
next
  case (Cons r rs)
  show ?case
    unfolding create_input_edges.simps
    by (rule well_formed_with_pair) (use Cons in simp_all)
qed

lemma well_formed_with_then_inputs:
  assumes "well_formed_with E d" and "\<forall>r \<in> set rs. consumable E i (entity_id r)"
    and "\<And>v d'. well_formed_with E d' \<Longrightarrow> well_formed_with E (snd (f v d'))"
  shows "well_formed_with E (snd (then_do (create_input_edges self c g k i rs d) f))"
  by (rule then_do_snd) (simp_all add: assms well_formed_with_inputs)

lemma well_formed_with_return:
  "well_formed_with E d \<Longrightarrow> well_formed_with E (snd (r, d))"
  by simp

lemma well_formed_insert:
  assumes "well_formed db"
    and "type_of_attributes (attributes row) = entity_type row"
    and "entity_type row \<noteq> Anchor \<longrightarrow> is_uuid (entity_id row)"
    and "\<And>v d. entity_id row \<notin> entity_id ` set (entities db)
           \<Longrightarrow> well_formed_with (entities db @ [row]) d
           \<Longrightarrow> well_formed_with (entities db @ [row]) (snd (k v d))"
  shows "well_formed (snd (then_do (insert_entity row db) k))"
proof (cases "entity_id row \<in> entity_id ` set (entities db)")
  case True
  with assms(1) show ?thesis by (simp add: insert_entity_def then_do_def)
next
  case False
  let ?d = "db\<lparr>entities := entities db @ [row]\<rparr>"
  have "lineage_pairs ?d"
    using assms(1) by (simp add: well_formed_iff lineage_pairs_iff edge_exists_iff)
  then have "well_formed ?d"
    using assms(1-3) False by (auto simp: well_formed_iff consumable_append)
  then have "well_formed_with (entities db @ [row]) ?d"
    by (simp add: well_formed_with_def)
  from assms(4) [OF False this] False show ?thesis
    by (simp add: insert_entity_def then_do_def well_formed_with_def)
qed

subsection \<open>The creation operations keep a store well-formed\<close>

lemma project_block_well_formed:
  assumes "well_formed db"
  shows "well_formed (snd (project_block defn g c db))"
proof (cases "rows_named db (pd_name defn)")
  case Nil
  then show ?thesis
    unfolding project_block_def project_new_def
    by (simp, intro well_formed_insert assms) simp_all
next
  case (Cons row rest)
  then show ?thesis
    by (simp add: project_block_def project_found_def assms)
qed

lemma datasource_block_well_formed:
  assumes "well_formed db"
  shows "well_formed (snd (datasource_block self pid defn g qn c db))"
proof (cases "rows_named db qn")
  case Nil
  have "well_formed (snd (datasource_new self pid defn g qn c db))"
    unfolding datasource_new_def
  proof (rule well_formed_insert [OF assms], goal_cases)
    case (3 v d)
    then show ?case
      by (intro well_formed_with_contains well_formed_with_belongs) simp_all
  qed (simp_all add: SourceDef_to_attr_def)
  with Nil show ?thesis by (simp add: datasource_block_def)
next
  case (Cons row rest)
  then show ?thesis
    by (simp add: datasource_block_def datasource_found_def assms split: Attributes.splits)
qed

lemma anchor_new_well_formed:
  assumes "well_formed db" and "UUID (g 0) \<notin> entity_id ` set (entities db)"
  shows "well_formed (snd (anchor_new self pid defn g qn c db))"
proof (cases "filter (\<lambda>r. entity_id r = ad_source_id defn \<and> entity_type r = Source)
                (entities db)")
  case Nil
  with assms show ?thesis by (simp add: anchor_new_def)
next
  case (Cons s ss)
  then have "s \<in> set (filter (\<lambda>r. entity_id r = ad_source_id defn \<and> entity_type r = Source)
                        (entities db))"
    by simp
  then have s: "s \<in> set (entities db)" "entity_id s = ad_source_id defn"
    "entity_type s \<noteq> Anchor"
    by auto
  have ok: "consumable (entities db @ rest) (UUID (g 0)) (ad_source_id defn)" for rest
    using s assms(2) by (rule consumable_new) simp
  show ?thesis
    unfolding anchor_new_def Cons list.case
  proof (rule well_formed_insert [OF assms(1)], goal_cases)
    case (3 v d)
    then show ?case
      by (intro well_formed_with_contains well_formed_with_belongs well_formed_with_pair ok)
         simp_all
  qed simp_all
qed

lemma anchor_block_well_formed:
  assumes "well_formed db" and "UUID (g 0) \<notin> entity_id ` set (entities db)"
  shows "well_formed (snd (anchor_block self pid defn g qn c db))"
proof (cases "rows_named db qn")
  case Nil
  with assms show ?thesis by (simp add: anchor_block_def anchor_new_well_formed)
next
  case (Cons row rest)
  then show ?thesis
    by (simp add: anchor_block_def anchor_found_def assms split: Attributes.splits)
qed

lemma anchor_feature_new_well_formed:
  assumes "well_formed db"
    and "\<And>source. e_source anchor = Some source
           \<Longrightarrow> \<exists>r \<in> set (entities db). entity_id r = e_id source \<and> entity_type r \<noteq> Anchor"
  shows "well_formed (snd (anchor_feature_new self pid aid anchor defn g qn c db))"
proof (cases "e_source anchor")
  case None
  with assms show ?thesis by (simp add: anchor_feature_new_def)
next
  case (Some source)
  from assms(2) [OF Some] obtain r where r: "r \<in> set (entities db)"
    "entity_id r = e_id source" "entity_type r \<noteq> Anchor"
    by auto
  have ok: "consumable (entities db @ rest) (UUID (g 0)) (e_id source)"
    if "UUID (g 0) \<notin> entity_id ` set (entities db)" for rest
    using r that by (rule consumable_new) simp
  show ?thesis
    unfolding anchor_feature_new_def Some option.case
  proof (rule well_formed_insert [OF assms(1)], goal_cases)
    case (3 v d)
    then have "UUID (g 0) \<notin> entity_id ` set (entities db)" by simp
    note ok [OF this]
    with 3 show ?case
      by (intro well_formed_with_contains well_formed_with_belongs well_formed_with_pair)
         simp_all
  qed simp_all
qed

lemma anchor_feature_block_well_formed:
  assumes "well_formed db"
    and "\<And>source. e_source anchor = Some source
           \<Longrightarrow> \<exists>r \<in> set (entities db). entity_id r = e_id source \<and> entity_type r \<noteq> Anchor"
  shows "well_formed (snd (anchor_feature_block self pid aid anchor defn g qn c db))"
proof (cases "rows_named db qn")
  case Nil
  with assms show ?thesis
    by (simp add: anchor_feature_block_def anchor_feature_new_well_formed)
next
  case (Cons row rest)
  then show ?thesis
    by (simp add: anchor_feature_block_def anchor_feature_found_def assms
        split: Attributes.splits)
qed

lemma derived_feature_insert_well_formed:
  assumes "well_formed db"
    and "\<forall>r \<in> set inputs. r \<in> set (entities db) \<and> entity_type r \<noteq> Anchor"
  shows "well_formed (snd (derived_feature_insert self pid defn g qn c inputs db))"
proof -
  have ok: "\<forall>r \<in> set inputs. consumable (entities db @ rest) (UUID (g 0)) (entity_id r)"
    if "UUID (g 0) \<notin> entity_id ` set (entities db)" for rest
    using assms(2) that by (auto intro!: consumable_new)
  show ?thesis
    unfolding derived_feature_insert_def
  proof (rule well_formed_insert [OF assms(1)], goal_cases)
    case (3 v d)
    then have "UUID (g 0) \<notin> entity_id ` set (entities db)" by simp
    note ok [OF this]
    with 3 show ?case
      by (intro well_formed_with_contains well_formed_with_belongs
          well_formed_with_then_inputs)
         simp_all
  qed simp_all
qed

lemma derived_feature_block_well_formed:
  assumes "well_formed db"
  shows "well_formed (snd (derived_feature_block self pid defn g qn c db))"
proof (cases "rows_named db qn")
  case Nil
  have "well_formed (snd (derived_feature_new self pid defn g qn c db))"
    unfolding derived_feature_new_def
    by (auto simp: assms input_rows_def intro!: derived_feature_insert_well_formed)
  with Nil show ?thesis by (simp add: derived_feature_block_def)
next
  case (Cons row rest)
  then show ?thesis
    by (simp add: derived_feature_block_def derived_feature_found_def assms
        split: Attributes.splits)
qed

subsection \<open>Reading a well-formed store\<close>

lemma position_le: "position rows x \<le> length rows"
  by (simp add: position_def length_takeWhile_le)

lemma well_formed_consumes:
  assumes "well_formed db" and "n \<in> set (edges db)" and "conn_type n = Consumes"
  obtains r where "r \<in> set (entities db)" and "entity_id r = to_id n"
    and "entity_type r \<noteq> Anchor" and "is_uuid (to_id n)" and "is_uuid (from_id n)"
    and "position (entities db) (to_id n) < position (entities db) (from_id n)"
proof -
  from assms have c: "consumable (entities db) (from_id n) (to_id n)"
    by (simp add: well_formed_iff)
  then obtain r where r: "r \<in> set (entities db)" "entity_id r = to_id n"
    "entity_type r \<noteq> Anchor"
    by (auto simp: consumable_def)
  with assms(1) have "is_uuid (to_id n)" by (auto simp: well_formed_iff)
  with r c that show ?thesis by (simp add: consumable_def)
qed

lemma well_formed_readable:
  assumes "well_formed db"
  shows "readable db"
  unfolding readable_iff
proof (intro conjI ballI impI)
  fix n
  assume "n \<in> set (edges db)"
    and "conn_type n = Consumes
         \<and> (\<exists>a \<in> set (entities db). entity_id a = from_id n \<and> entity_type a = Anchor)"
  with assms obtain r where "r \<in> set (entities db)" "entity_id r = to_id n"
    "entity_type r \<noteq> Anchor" "is_uuid (to_id n)"
    by (auto elim: well_formed_consumes)
  then show "is_uuid (to_id n)"
    and "\<exists>r \<in> set (entities db). entity_id r = to_id n \<and> entity_type r \<noteq> Anchor"
    by auto
qed (use assms in \<open>simp_all add: well_formed_iff\<close>)

lemma get_entity_consumed:
  assumes "well_formed db" and "n \<in> set (edges db)" and "conn_type n = Consumes"
  shows "\<exists>src. get_entity db (to_id n) = Some (Inr src) \<and> e_id src = to_id n"
proof -
  from assms obtain r where r: "r \<in> set (entities db)" "entity_id r = to_id n"
    "entity_type r \<noteq> Anchor" "is_uuid (to_id n)"
    by (rule well_formed_consumes)
  from get_entity_plain [OF well_formed_readable [OF assms(1)] r(1)] r show ?thesis
    by auto
qed

lemma well_formed_no_anchor_consumed:
  assumes "well_formed db"
  shows "no_anchor_consumed db"
  unfolding no_anchor_consumed_def list_all_iff
proof (intro ballI impI)
  fix n
  assume n: "n \<in> set (edges db)" "conn_type n = Consumes"
  from assms n obtain r where r: "r \<in> set (entities db)" "entity_id r = to_id n"
    "entity_type r \<noteq> Anchor" "is_uuid (to_id n)"
    by (rule well_formed_consumes)
  with readable_row [OF well_formed_readable [OF assms] r(1)]
  show "case u_get_entity db (to_id n) of Inl err \<Rightarrow> True
        | Inr e \<Rightarrow> e_entity_type e \<noteq> Anchor"
    by simp
qed

lemma get_entities_ok:
  assumes "well_formed db"
    and ids: "\<forall>i \<in> set ids. \<exists>c \<in> set (edges db).
                conn_type c = Consumes \<and> (from_id c = i \<or> to_id c = i)"
  shows "\<exists>es. get_entities db ids = Some (Inr es)"
proof -
  have "is_uuid (entity_id r) \<and> sourced db (entity_id r)"
    if r: "r \<in> set (entities db)" "entity_id r \<in> set ids" for r
  proof -
    from ids r(2) obtain c where c: "c \<in> set (edges db)" "conn_type c = Consumes"
      "from_id c = entity_id r \<or> to_id c = entity_id r"
      by auto
    from assms(1) c(1,2) obtain r' where r': "r' \<in> set (entities db)"
      "entity_id r' = to_id c" "entity_type r' \<noteq> Anchor" "is_uuid (to_id c)"
      "is_uuid (from_id c)"
      by (rule well_formed_consumes)
    note same = readable_same_row [OF well_formed_readable [OF assms(1)]]
    from c(3) show ?thesis
    proof
      assume src: "from_id c = entity_id r"
      with c(1,2) have "c \<in> set (u_bfs_step db [entity_id r] Consumes)"
        by (simp add: u_bfs_step_def)
      then have "u_bfs_step db [entity_id r] Consumes \<noteq> []" by auto
      with src r' show ?thesis by (auto simp: sourced_iff)
    next
      assume tgt: "to_id c = entity_id r"
      have "entity_type a \<noteq> Anchor" if "a \<in> set (entities db)" "entity_id a = entity_id r"
        for a
        using same [OF r'(1) that(1)] that(2) tgt r'(2,3) by auto
      with tgt r' show ?thesis by (auto simp: sourced_iff)
    qed
  qed
  with get_entities_readable [OF well_formed_readable [OF assms(1)], of ids] show ?thesis
    by blast
qed

subsection \<open>The lineage of the target of a Produces edge\<close>

lemma produces_pair:
  assumes "well_formed db" and "p \<in> set (edges db)" and "conn_type p = Produces"
  obtains c where "c \<in> set (edges db)" and "conn_type c = Consumes"
    and "from_id c = to_id p" and "to_id c = from_id p"
  using assms by (auto simp: well_formed_iff lineage_pairs_iff edge_exists_iff)

lemma bfs_loop_consumes_returns:
  assumes "well_formed db"
  shows "\<exists>conns. bfs_loop db Consumes ids acc = Some conns"
proof (rule bfs_loop_terminates)
  show "\<forall>e \<in> set (edges db). conn_type e = Consumes
          \<longrightarrow> position (entities db) (to_id e) < position (entities db) (from_id e)"
    using assms by (auto elim: well_formed_consumes)
qed

lemma bfs_loop_produces_returns:
  assumes "well_formed db"
  shows "\<exists>conns. bfs_loop db Produces ids acc = Some conns"
proof (rule bfs_loop_terminates)
  let ?m = "\<lambda>x. length (entities db) - position (entities db) x"
  show "\<forall>e \<in> set (edges db). conn_type e = Produces \<longrightarrow> ?m (to_id e) < ?m (from_id e)"
  proof (intro ballI impI)
    fix p
    assume p: "p \<in> set (edges db)" "conn_type p = Produces"
    from assms p obtain c where c: "c \<in> set (edges db)" "conn_type c = Consumes"
      "from_id c = to_id p" "to_id c = from_id p"
      by (rule produces_pair)
    from assms c(1,2) have
      "position (entities db) (to_id c) < position (entities db) (from_id c)"
      by (rule well_formed_consumes)
    with c(3,4) position_le [of "entities db" "to_id p"] show "?m (to_id p) < ?m (from_id p)"
      by simp
  qed
qed

lemma u_bfs_ok:
  assumes "well_formed db" and "p \<in> set (edges db)" and "conn_type p = Produces"
    and ct: "ct = Consumes \<or> ct = Produces"
  shows "\<exists>es conns. u_bfs db (to_id p) ct = Some (Inr (es, conns))
           \<and> bfs_loop db ct [to_id p] [] = Some conns
           \<and> get_entities db (to_id p # concat (map (\<lambda>r. [from_id r, to_id r]) conns))
             = Some (Inr es)"
proof -
  from ct bfs_loop_consumes_returns [OF assms(1)] bfs_loop_produces_returns [OF assms(1)]
  obtain conns where conns: "bfs_loop db ct [to_id p] [] = Some conns" by blast
  let ?ids = "to_id p # concat (map (\<lambda>r. [from_id r, to_id r]) conns)"
  have "\<exists>c \<in> set (edges db). conn_type c = Consumes \<and> (from_id c = i \<or> to_id c = i)"
    if "i \<in> set ?ids" for i
  proof (cases "i = to_id p")
    case True
    with produces_pair [OF assms(1-3)] show ?thesis by metis
  next
    case False
    with that obtain e where e: "e \<in> set conns" "i = from_id e \<or> i = to_id e" by auto
    from bfs_loop_collects [OF conns] e(1) have e': "e \<in> set (edges db)" "conn_type e = ct"
      by auto
    show ?thesis
    proof (cases "ct = Consumes")
      case True
      with e e' show ?thesis by auto
    next
      case False
      with ct e' have "conn_type e = Produces" by simp
      from produces_pair [OF assms(1) e'(1) this] e(2) show ?thesis by metis
    qed
  qed
  then have "\<exists>es. get_entities db ?ids = Some (Inr es)"
    by (intro get_entities_ok [OF assms(1)]) blast
  then obtain es where "get_entities db ?ids = Some (Inr es)" ..
  with conns show ?thesis by (simp add: u_bfs_def)
qed

lemma get_lineage_of_produces:
  assumes "well_formed db" and "p \<in> set (edges db)" and "conn_type p = Produces"
  shows "\<exists>up ue down de.
           u_bfs db (to_id p) Consumes = Some (Inr (up, ue))
           \<and> get_lineage db (to_id p) = Some (Inr (up @ down, ue @ de))
           \<and> from_id p \<in> e_id ` set up"
proof -
  from assms obtain c where c: "c \<in> set (edges db)" "conn_type c = Consumes"
    "from_id c = to_id p" "to_id c = from_id p"
    by (rule produces_pair)
  from assms(1) c(1,2) obtain r where r: "r \<in> set (entities db)" "entity_id r = to_id c"
    "is_uuid (from_id c)"
    by (rule well_formed_consumes)
  from u_bfs_ok [OF assms, of Consumes] obtain up ue where
    up: "u_bfs db (to_id p) Consumes = Some (Inr (up, ue))"
    "bfs_loop db Consumes [to_id p] [] = Some ue"
    "get_entities db (to_id p # concat (map (\<lambda>r. [from_id r, to_id r]) ue)) = Some (Inr up)"
    by auto
  from u_bfs_ok [OF assms, of Produces] obtain down de where
    down: "u_bfs db (to_id p) Produces = Some (Inr (down, de))"
    by auto
  from r(3) c(3) have "get_entity_id db (to_id p) = Inr (to_id p)"
    by (cases "to_id p") simp_all
  with up(1) down have "get_lineage db (to_id p) = Some (Inr (up @ down, ue @ de))"
    by (simp add: get_lineage_def)
  moreover have "from_id p \<in> e_id ` set up"
  proof -
    from c have "c \<in> set (u_bfs_step db [to_id p] Consumes)" by (simp add: u_bfs_step_def)
    with bfs_loop_first_step [OF up(2)] have "c \<in> set ue" by auto
    with c(4) have "from_id p \<in> set (to_id p # concat (map (\<lambda>r. [from_id r, to_id r]) ue))"
      by force
    moreover from r c(4) have "from_id p \<in> entity_id ` set (entities db)" by force
    ultimately show ?thesis by (simp add: get_entities_ids [OF up(3)])
  qed
  ultimately show ?thesis using up(1) by blast
qed

subsection \<open>Sequences of creation operations\<close>

lemma u_get_entity_source: "u_get_entity db x = Inr e \<Longrightarrow> e_source e = None"
  by (auto simp: u_get_entity_def new_Entity_def split: sum.splits list.splits if_splits)

lemma fill_source:
  "fill_children db e = Inr e' \<Longrightarrow> e_source e' = e_source e"
  "fill_input_features db e = Inr e' \<Longrightarrow> e_source e' = e_source e"
  by (auto simp: fill_children_def fill_input_features_def split: sum.splits)

lemma u_fill_entity_source:
  assumes "u_fill_entity db e = Some (Inr a)" and "e_source e = None"
    and "e_source a = Some source"
  obtains e' n ns where "get_neighbors db (e_id e') Consumes = Inr (n # ns)"
    and "get_entity db (to_id n) = Some (Inr source)"
proof (cases "e_entity_type e = Anchor")
  case False
  with assms(1) have "e_source a = e_source e"
    by (auto simp: u_fill_entity_def fill_source split: if_splits)
  with assms(2,3) show ?thesis by simp
next
  case True
  with assms(1) have fill:
    "(case fill_features db e of
        Inl err \<Rightarrow> Some (Inl err)
      | Inr e' \<Rightarrow>
          (case get_neighbors db (e_id e') Consumes of
             Inl err \<Rightarrow> Some (Inl err)
           | Inr [] \<Rightarrow> Some (Inl IndexError)
           | Inr (n # ns) \<Rightarrow>
               (case get_entity db (to_id n) of
                  None \<Rightarrow> None
                | Some (Inl err) \<Rightarrow> Some (Inl err)
                | Some (Inr src) \<Rightarrow> Some (Inr (set_source e' src))))) = Some (Inr a)"
    by (simp add: u_fill_entity_def)
  then obtain e' where e': "fill_features db e = Inr e'"
    by (cases "fill_features db e") simp_all
  with fill obtain conn where conn: "get_neighbors db (e_id e') Consumes = Inr conn"
    by (cases "get_neighbors db (e_id e') Consumes") simp_all
  with fill e' obtain n ns where ns: "conn = n # ns"
    by (cases conn) simp_all
  with fill e' conn obtain r where r: "get_entity db (to_id n) = Some r"
    by (cases "get_entity db (to_id n)") simp_all
  with fill e' conn ns obtain src where src: "r = Inr src"
    by (cases r) simp_all
  with fill e' conn ns r have "a = set_source e' src" by simp
  with assms(3) have "src = source" by (simp add: set_source_def)
  with that conn ns r src show ?thesis by simp
qed

lemma get_entity_source:
  assumes "well_formed db" and "get_entity db x = Some (Inr anchor)"
    and "e_source anchor = Some source"
  shows "\<exists>r \<in> set (entities db). entity_id r = e_id source \<and> entity_type r \<noteq> Anchor"
proof -
  from assms(2) obtain e where e: "u_get_entity db x = Inr e"
    and fill: "u_fill_entity db e = Some (Inr anchor)"
    by (cases "u_get_entity db x") (simp_all add: get_entity_fill)
  from e have "e_source e = None" by (rule u_get_entity_source)
  with fill obtain e' n ns where
    ns: "get_neighbors db (e_id e') Consumes = Inr (n # ns)"
    and src: "get_entity db (to_id n) = Some (Inr source)"
    using assms(3) by (rule u_fill_entity_source)
  from neighbors_in_edges [OF ns, of n] have n: "n \<in> set (edges db)" "conn_type n = Consumes"
    by simp_all
  from get_entity_consumed [OF assms(1) n] src have "e_id source = to_id n" by auto
  with well_formed_consumes [OF assms(1) n] show ?thesis by metis
qed

lemma creator_cases:
  assumes "(case get_entity db x of
              None \<Rightarrow> None
            | Some (Inl err) \<Rightarrow> Some (Inl err, db)
            | Some (Inr entity) \<Rightarrow> Some (f entity)) = Some (res, db')"
  obtains "db' = db"
  | entity where "get_entity db x = Some (Inr entity)" and "f entity = (res, db')"
  using assms by (auto split: option.splits sum.splits)

lemma creator_returns:
  assumes "get_entity db x = Some r"
  shows "\<exists>y. (case get_entity db x of
                 None \<Rightarrow> None
               | Some (Inl err) \<Rightarrow> Some (Inl err, db)
               | Some (Inr entity) \<Rightarrow> Some (f entity)) = Some y"
  using assms by (cases r) simp_all

lemma apply_operation_returns:
  assumes "well_formed db"
  shows "\<exists>r. apply_operation self operation db = Some r"
proof -
  have "\<exists>r. get_entity db x = Some r" for x
    by (rule get_entity_returns) (rule well_formed_no_anchor_consumed [OF assms])
  then have "\<exists>y. (case get_entity db x of
                    None \<Rightarrow> None
                  | Some (Inl err) \<Rightarrow> Some (Inl err, db)
                  | Some (Inr entity) \<Rightarrow> Some (f entity)) = Some y" for x f
    using creator_returns [of db x] by blast
  then show ?thesis
    by (cases operation)
       (simp_all add: create_project_datasource_def create_project_anchor_def
          create_project_anchor_feature_def create_project_derived_feature_def)
qed

lemma apply_operation_well_formed:
  assumes "well_formed db"
    and fresh: "UUID (uuid4_of operation 0) \<notin> entity_id ` set (entities db)"
    and step: "apply_operation self operation db = Some (res, db')"
  shows "well_formed db'"
proof (cases operation)
  case (CreateProject defn g)
  have "well_formed (snd (create_project self db defn g))"
    unfolding create_project_def
    by (rule transaction_snd) (simp_all add: assms(1) project_block_well_formed)
  with CreateProject step show ?thesis by simp
next
  case (CreateProjectDatasource pid defn g)
  with step have "create_project_datasource self db pid defn g = Some (res, db')" by simp
  from this [unfolded create_project_datasource_def] show ?thesis
  proof (cases rule: creator_cases)
    case (2 project)
    have "well_formed (snd (transaction self
            (datasource_block self pid defn g (e_qualified_name project @ ''__'' @ sd_name defn))
            db))"
      by (rule transaction_snd) (simp_all add: assms(1) datasource_block_well_formed)
    with 2 show ?thesis by simp
  qed (simp add: assms(1))
next
  case (CreateProjectAnchor pid defn g)
  with fresh have g: "UUID (g 0) \<notin> entity_id ` set (entities db)" by simp
  from CreateProjectAnchor step have
    "create_project_anchor self db pid defn g = Some (res, db')"
    by simp
  from this [unfolded create_project_anchor_def] show ?thesis
  proof (cases rule: creator_cases)
    case (2 project)
    have "well_formed (snd (transaction self
            (anchor_block self pid defn g (e_qualified_name project @ ''__'' @ ad_name defn))
            db))"
      by (rule transaction_snd) (simp_all add: assms(1) g anchor_block_well_formed)
    with 2 show ?thesis by simp
  qed (simp add: assms(1))
next
  case (CreateProjectAnchorFeature pid aid defn g)
  with step have "create_project_anchor_feature self db pid aid defn g = Some (res, db')" by simp
  from this [unfolded create_project_anchor_feature_def] show ?thesis
  proof (cases rule: creator_cases)
    case (2 anchor)
    have "well_formed (snd (transaction self
            (anchor_feature_block self pid aid anchor defn g
               (e_qualified_name anchor @ ''__'' @ afd_name defn))
            db))"
      by (rule transaction_snd)
         (simp_all add: assms(1) anchor_feature_block_well_formed
            get_entity_source [OF assms(1) 2(1)])
    with 2 show ?thesis by simp
  qed (simp add: assms(1))
next
  case (CreateProjectDerivedFeature pid defn g)
  with step have "create_project_derived_feature self db pid defn g = Some (res, db')" by simp
  from this [unfolded create_project_derived_feature_def] show ?thesis
  proof (cases rule: creator_cases)
    case (2 project)
    have "well_formed (snd (transaction self
            (derived_feature_block self pid defn g
               (e_qualified_name project @ ''__'' @ dfd_name defn))
            db))"
      by (rule transaction_snd) (simp_all add: assms(1) derived_feature_block_well_formed)
    with 2 show ?thesis by simp
  qed (simp add: assms(1))
qed

lemma run_well_formed:
  assumes "well_formed db" and "fresh_ids self operations db"
  shows "\<exists>db'. run self operations db = Some db' \<and> well_formed db'"
  using assms
proof (induction operations arbitrary: db)
  case Nil
  then show ?case by simp
next
  case (Cons operation operations)
  from apply_operation_returns [OF Cons.prems(1)] obtain res d where
    step: "apply_operation self operation db = Some (res, d)"
    by fastforce
  from Cons.prems(2) have "UUID (uuid4_of operation 0) \<notin> entity_id ` set (entities db)"
    by simp
  from apply_operation_well_formed [OF Cons.prems(1) this step] have "well_formed d" .
  moreover from Cons.prems(2) step have "fresh_ids self operations d" by simp
  ultimately have "\<exists>db'. run self operations d = Some db' \<and> well_formed db'"
    by (rule Cons.IH)
  with step show ?case by simp
qed

lemma well_formed_empty: "well_formed empty_database"
  by (simp add: well_formed_def empty_database_def lineage_pairs_def)

text \<open>
  C9. A sequence of creation operations, called on the empty store with
  ids from \<open>uuid4()\<close> that are not yet the id of a stored row, returns; in the store it
  leaves, every Produces edge from \<open>X\<close> to \<open>Y\<close> has a Consumes edge from \<open>Y\<close> to \<open>X\<close>,
  and \<open>get_lineage(Y)\<close> returns a result whose upstream entities, those of the traversal
  along Consumes, include \<open>X\<close>.
\<close>

theorem lineage_symmetry:
  assumes "fresh_ids self operations empty_database"
  shows "\<exists>db. run self operations empty_database = Some db
           \<and> (\<forall>e \<in> set (edges db). conn_type e = Produces
                \<longrightarrow> edge_exists db (to_id e) (from_id e) Consumes
                    \<and> (\<exists>up ue down de.
                          u_bfs db (to_id e) Consumes = Some (Inr (up, ue))
                          \<and> get_lineage db (to_id e) = Some (Inr (up @ down, ue @ de))
                          \<and> from_id e \<in> e_id ` set up))"
proof -
  from run_well_formed [OF well_formed_empty assms] obtain db where
    db: "run self operations empty_database = Some db" "well_formed db"
    by auto
  have "edge_exists db (to_id e) (from_id e) Consumes
        \<and> (\<exists>up ue down de.
              u_bfs db (to_id e) Consumes = Some (Inr (up, ue))
              \<and> get_lineage db (to_id e) = Some (Inr (up @ down, ue @ de))
              \<and> from_id e \<in> e_id ` set up)"
    if "e \<in> set (edges db)" "conn_type e = Produces" for e
    using get_lineage_of_produces [OF db(2) that] db(2) that
    by (simp add: well_formed_iff lineage_pairs_iff)
  with db(1) show ?thesis by blast
qed

theorem lineage_symmetry_witness:
  "fresh_ids (SQLAlchemyConnection no_text) sample_operations empty_database
   \<and> run (SQLAlchemyConnection no_text) sample_operations empty_database = Some store_full
   \<and> \<lparr>edge_id = UUID 504, from_id = UUID 400, to_id = UUID 500, conn_type = Produces\<rparr>
       \<in> set (edges store_full)
   \<and> edge_exists store_full (UUID 500) (UUID 400) Consumes
   \<and> (\<exists>up ue down de.
         u_bfs store_full (UUID 500) Consumes = Some (Inr (up, ue))
         \<and> get_lineage store_full (UUID 500) = Some (Inr (up @ down, ue @ de))
         \<and> UUID 400 \<in> e_id ` set up)"
proof -
  have fresh: "fresh_ids (SQLAlchemyConnection no_text) sample_operations empty_database"
    by code_simp
  have run: "run (SQLAlchemyConnection no_text) sample_operations empty_database
             = Some store_full"
    by code_simp
  have edge: "\<lparr>edge_id = UUID 504, from_id = UUID 400, to_id = UUID 500,
               conn_type = Produces\<rparr> \<in> set (edges store_full)"
    by code_simp
  from lineage_symmetry [OF fresh] run edge fresh show ?thesis
    by fastforce
qed

section \<open>Creation on sample stores\<close>

text \<open>
  C2 (fails for anchors in raw-SQL mode). In raw-SQL mode the first
  \<open>create_project_anchor\<close> returns the new id 300 but stores the row under the text
  \<open><built-in function id>\<close>; the second call, with the same definition, finds that row
  and raises ValueError when it converts the stored id, instead of returning 300.
\<close>

theorem create_project_anchor_twice_raw:
  "create_project_anchor (MssqlConnection True) store_p1_s1 (UUID 100) (def_a1 (UUID 200))
     (uuids_from 300)
   = Some (Inr (UUID 300), store_anchor str_builtin_id)
   \<and> create_project_anchor (MssqlConnection True) (store_anchor str_builtin_id) (UUID 100)
       (def_a1 (UUID 200)) (uuids_from 400)
     = Some (Inl ValueError, store_anchor str_builtin_id)"
  by code_simp

text \<open>The same two calls in SQLAlchemy mode return the id 300 both times.\<close>

lemma create_project_anchor_twice_orm:
  "create_project_anchor (SQLAlchemyConnection no_text) store_p1_s1 (UUID 100) (def_a1 (UUID 200))
     (uuids_from 300)
   = Some (Inr (UUID 300), store_anchor (UUID 300))
   \<and> create_project_anchor (SQLAlchemyConnection no_text) (store_anchor (UUID 300)) (UUID 100)
       (def_a1 (UUID 200)) (uuids_from 400)
     = Some (Inr (UUID 300), store_anchor (UUID 300))"
  by code_simp

text \<open>
  C4 (fails in both modes). \<open>create_project_datasource\<close> on a connection as
  \<open>get_db_provider\<close> builds it: when the insert of the second edge is refused (here
  \<open>uuid4()\<close> returns the id 201 for both edges, a primary-key violation), the call
  raises, and the entity row and the first edge stay in the store.
\<close>

theorem create_project_datasource_partial_write:
  "create_project_datasource (MssqlConnection True) store_p1 (UUID 100) def_s1 (repeated_uuid 200)
   = Some (Inl IntegrityError,
       \<lparr>entities = [project_p1, source_s1],
        edges = [\<lparr>edge_id = UUID 201, from_id = UUID 100, to_id = UUID 200,
                  conn_type = Contains\<rparr>]\<rparr>)
   \<and> create_project_datasource (SQLAlchemyConnection no_text) store_p1 (UUID 100) def_s1
       (repeated_uuid 200)
     = Some (Inl IntegrityError,
         \<lparr>entities = [project_p1, source_s1],
          edges = [\<lparr>edge_id = UUID 201, from_id = UUID 100, to_id = UUID 200,
                    conn_type = Contains\<rparr>]\<rparr>)"
  by code_simp

text \<open>
  With a connection that does not autocommit, which \<open>MssqlConnection.transaction\<close> means
  to open, the same call leaves the store as it was.
\<close>

lemma create_project_datasource_rolled_back:
  "create_project_datasource (MssqlConnection False) store_p1 (UUID 100) def_s1 (repeated_uuid 200)
   = Some (Inl IntegrityError, store_p1)"
  by code_simp

text \<open>
  In both modes as the registry runs them, the store after \<open>transaction\<close> is the store
  as the block left it, whether the block returned or raised.
\<close>

lemma transaction_autocommit:
  "transaction (MssqlConnection True) body db = body (Cursor True) db"
  by (cases "body (Cursor True) db") (auto simp: transaction_def split: sum.splits)

lemma transaction_session:
  "transaction (SQLAlchemyConnection t) body db = body Session db"
  by (cases "body Session db") (auto simp: transaction_def split: sum.splits)

section \<open>The reserved project name\<close>

text \<open>
  C8 (as stated, fails). \<open>DbRegistry.create_project\<close> accepts the name \<open>global\<close>: on
  the empty store it creates the project and returns its id. This is the call that
  \<open>_init_project\<close> makes when the registry starts.
\<close>

theorem create_project_global_accepted:
  "create_project (SQLAlchemyConnection no_text) empty_database \<lparr>pd_name = ''global''\<rparr>
     (uuids_from 1)
   = (Inr (UUID 1),
      \<lparr>entities =
         [\<lparr>entity_id = UUID 1, qualified_name = ''global'', entity_type = Project,
           attributes = ProjectAttributes ''global''\<rparr>],
       edges = []\<rparr>)"
  by code_simp

text \<open>
  C8 (amended). The reserved name is refused by the access-control service: for every
  project name whose case-folded form is that of the global scope name, \<open>new_project\<close>
  fails with BadRequest (status 400) in \<open>init_userrole\<close>, before the registry is
  called; no user role is written and the registry's store is unchanged.
\<close>

theorem new_project_reserved_name:
  assumes "casefold (pd_name defn) = casefold SUPER_ADMIN_SCOPE"
  shows "new_project admin self (userroles, db) requestor defn uuid4
         = (Inl BadRequest, userroles, db)"
  using assms by (simp add: new_project_def init_userrole_def)

theorem new_project_reserved_name_witness:
  "casefold (pd_name \<lparr>pd_name = ''Global''\<rparr>) = casefold SUPER_ADMIN_SCOPE
   \<and> new_project ''admin'' (MssqlConnection True) ([], empty_database) ''alice''
         \<lparr>pd_name = ''Global''\<rparr> (uuids_from 1)
       = (Inl BadRequest, [], empty_database)"
proof -
  have h: "casefold (pd_name \<lparr>pd_name = ''Global''\<rparr>) = casefold SUPER_ADMIN_SCOPE"
    by code_simp
  show ?thesis
    using h new_project_reserved_name [OF h, of "''admin''" "MssqlConnection True" "[]"
        empty_database "''alice''" "uuids_from 1"]
    by simp
qed

end
